theory Spec2Isabelle
  imports Complex_Main "HOL-Library.Word" "HOL-Library.AList"
begin

section \<open>Python values and errors\<close>

text \<open>
  Every exception the modelled code can raise is a value of \<open>py_error\<close>; a function
  that can raise returns \<open>py_error + 'a\<close> with \<open>Inl\<close> for the exception.
\<close>

datatype py_error =
    IndexError
  | KeyError
  | TypeError
  | ValueError
  | AttributeError
  | StructError
  | FileNotFoundError
  | JSONDecodeError
  | OSError
  | UnboundLocalError

type_synonym byte = "8 word"
type_synonym bytes = "byte list"

section \<open>Framing layer: \<open>send_message\<close>, \<open>recv_exact\<close>, \<open>recv_message\<close>\<close>

text \<open>
  The three functions are repeated verbatim in \<open>server/main_server.py\<close>,
  \<open>server/database_server.py\<close>, \<open>player/player.py\<close> and \<open>developer/developer.py\<close>,
  and in the match servers and clients of \<open>Duel_25\<close> and \<open>Dots_and_Boxes\<close>.
\<close>

definition CHUNK_SIZE :: nat where
  "CHUNK_SIZE = 65536"

text \<open>\<open>struct.pack('!I', n)\<close>: four bytes, big endian; \<open>struct.error\<close> beyond 32 bits.\<close>

definition pack_I :: "nat \<Rightarrow> py_error + bytes" where
  "pack_I n =
     (if n < 2 ^ 32
      then Inr [of_nat (n div 2 ^ 24), of_nat (n div 2 ^ 16), of_nat (n div 2 ^ 8), of_nat n]
      else Inl StructError)"

text \<open>\<open>struct.unpack('!I', b)[0]\<close>: \<open>struct.error\<close> unless \<open>b\<close> has exactly four bytes.\<close>

fun unpack_I :: "bytes \<Rightarrow> py_error + nat" where
  "unpack_I [a, b, c, d] = Inr (unat a * 2 ^ 24 + unat b * 2 ^ 16 + unat c * 2 ^ 8 + unat d)"
| "unpack_I _ = Inl StructError"

text \<open>Python's slice \<open>data[a:b]\<close> for \<open>0 \<le> a \<le> b\<close>.\<close>

definition slice :: "nat \<Rightarrow> nat \<Rightarrow> 'a list \<Rightarrow> 'a list" where
  "slice a b xs = take (b - a) (drop a xs)"

text \<open>
  The sending side of a socket is the byte string written so far; \<open>sendall\<close> appends.
  The \<open>while offset < total_length\<close> loop of \<open>send_message\<close>:
\<close>

function send_loop :: "bytes \<Rightarrow> nat \<Rightarrow> bytes \<Rightarrow> py_error + bytes" where
  "send_loop data offset sock =
     (if offset < length data then
        (let remaining = length data - offset;
             chunk_length = min CHUNK_SIZE remaining;
             chunk_data = slice offset (offset + chunk_length) data
         in case pack_I chunk_length of
              Inl e \<Rightarrow> Inl e
            | Inr length_prefix \<Rightarrow>
                send_loop data (offset + chunk_length) ((sock @ length_prefix) @ chunk_data))
      else Inr sock)"
  by pat_completeness auto
termination
  by (relation "measure (\<lambda>(data, offset, sock). length data - offset)")
     (auto simp: CHUNK_SIZE_def min_def)

text \<open>
  \<open>send_message\<close>; \<open>dumps\<close> stands for \<open>json.dumps(message).encode('utf-8')\<close>, a
  library function taken as a parameter.
\<close>

definition send_message :: "('v \<Rightarrow> bytes) \<Rightarrow> bytes \<Rightarrow> 'v \<Rightarrow> py_error + bytes" where
  "send_message dumps sock message =
     (let data = dumps message in
      case send_loop data 0 sock of
        Inl e \<Rightarrow> Inl e
      | Inr sock' \<Rightarrow>
          (case pack_I 0 of
             Inl e \<Rightarrow> Inl e
           | Inr end_marker \<Rightarrow> Inr (sock' @ end_marker)))"

text \<open>
  The receiving side of a socket is the list of packets still to arrive; the peer has
  closed the connection after the last one.  \<open>sock.recv(k)\<close> returns at most \<open>k\<close>
  bytes of the first packet and leaves the rest of it; on a closed connection it
  returns the empty byte string.
\<close>

type_synonym rsock = "bytes list"

fun recv :: "rsock \<Rightarrow> nat \<Rightarrow> bytes \<times> rsock" where
  "recv [] k = ([], [])"
| "recv (p # ps) k = (take k p, if length p \<le> k then ps else drop k p # ps)"

function recv_exact_loop :: "rsock \<Rightarrow> nat \<Rightarrow> bytes \<Rightarrow> bytes option \<times> rsock" where
  "recv_exact_loop sock n data =
     (if length data < n then
        (case recv sock (n - length data) of
           (packet, sock') \<Rightarrow>
             if packet = [] then (None, sock')
             else recv_exact_loop sock' n (data @ packet))
      else (Some data, sock))"
  by pat_completeness auto
termination
proof (relation "measure (\<lambda>(sock, n, data). n - length data)", goal_cases)
  case 1
  show ?case by simp
next
  case (2 sock n data x y)
  then show ?case by (cases x) auto
qed

definition recv_exact :: "rsock \<Rightarrow> nat \<Rightarrow> bytes option \<times> rsock" where
  "recv_exact sock n = recv_exact_loop sock n []"

datatype 'v received = NoMessage | Raised py_error | Message 'v

text \<open>The number of bytes still to arrive on a socket.\<close>

definition pending_bytes :: "rsock \<Rightarrow> nat" where
  "pending_bytes sock = length (concat sock)"

lemma recv_pending:
  "recv sock k = (packet, sock') \<Longrightarrow> pending_bytes sock' + length packet = pending_bytes sock"
  by (cases sock) (auto simp: pending_bytes_def split: if_splits)

lemma recv_exact_loop_pending:
  "recv_exact_loop sock n data = (Some d, sock') \<Longrightarrow>
     pending_bytes sock' + length d = pending_bytes sock + length data"
proof (induction sock n data rule: recv_exact_loop.induct)
  case (1 sock n data)
  show ?case
  proof (cases "length data < n")
    case False
    with "1.prems" show ?thesis by simp
  next
    case True
    obtain packet sock1 where r: "recv sock (n - length data) = (packet, sock1)"
      by (cases "recv sock (n - length data)")
    with True "1.prems" have ne: "packet \<noteq> []"
      by (auto split: if_splits)
    with True r "1.prems" have "recv_exact_loop sock1 n (data @ packet) = (Some d, sock')"
      by simp
    with "1.IH" [OF True r [symmetric] ne]
    have "pending_bytes sock' + length d = pending_bytes sock1 + length (data @ packet)"
      by simp
    with recv_pending [OF r] show ?thesis by simp
  qed
qed

lemma recv_exact_loop_length:
  "recv_exact_loop sock n data = (Some d, sock') \<Longrightarrow> length data \<le> n \<Longrightarrow> length d = n"
proof (induction sock n data rule: recv_exact_loop.induct)
  case (1 sock n data)
  show ?case
  proof (cases "length data < n")
    case False
    with "1.prems" show ?thesis by simp
  next
    case True
    obtain packet sock1 where r: "recv sock (n - length data) = (packet, sock1)"
      by (cases "recv sock (n - length data)")
    with True "1.prems" have ne: "packet \<noteq> []"
      by (auto split: if_splits)
    from r have "length packet \<le> n - length data"
      by (cases sock) auto
    with True have le: "length (data @ packet) \<le> n" by simp
    from True r ne "1.prems" have "recv_exact_loop sock1 n (data @ packet) = (Some d, sock')"
      by simp
    with "1.IH" [OF True r [symmetric] ne] le show ?thesis by simp
  qed
qed

lemma recv_exact_pending:
  "recv_exact sock n = (Some d, sock') \<Longrightarrow> pending_bytes sock' + n = pending_bytes sock"
  using recv_exact_loop_pending [of sock n "[]" d sock']
        recv_exact_loop_length [of sock n "[]" d sock']
  by (simp add: recv_exact_def)

text \<open>
  The \<open>while True\<close> loop of \<open>recv_message\<close>.  It returns the chunks read when the
  zero marker arrives, \<open>NoMessage\<close> (Python's \<open>None\<close>) when the connection closes,
  and raises \<open>ValueError\<close> on a declared length beyond \<open>CHUNK_SIZE\<close>.
\<close>

function recv_loop :: "rsock \<Rightarrow> bytes list \<Rightarrow> (bytes list) received \<times> rsock" where
  "recv_loop sock chunks =
     (case recv_exact sock 4 of
        (None, sock1) \<Rightarrow> (NoMessage, sock1)
      | (Some length_data, sock1) \<Rightarrow>
          if length_data = [] then (NoMessage, sock1)
          else
            (case unpack_I length_data of
               Inl e \<Rightarrow> (Raised e, sock1)
             | Inr chunk_length \<Rightarrow>
                 if chunk_length = 0 then (Message chunks, sock1)
                 else if chunk_length > CHUNK_SIZE then (Raised ValueError, sock1)
                 else
                   (case recv_exact sock1 chunk_length of
                      (None, sock2) \<Rightarrow> (NoMessage, sock2)
                    | (Some chunk_data, sock2) \<Rightarrow>
                        if chunk_data = [] then (NoMessage, sock2)
                        else recv_loop sock2 (chunks @ [chunk_data]))))"
  by pat_completeness auto
termination
proof (relation "measure (\<lambda>(sock, chunks). pending_bytes sock)", goal_cases)
  case 1
  show ?case by simp
next
  case (2 sock chunks x1 sock1 length_data chunk_length x3 sock2 chunk_data)
  from 2 have a: "recv_exact sock 4 = (Some length_data, sock1)" by simp
  from 2 have b: "recv_exact sock1 chunk_length = (Some chunk_data, sock2)" by simp
  from recv_exact_pending [OF a] recv_exact_pending [OF b] show ?case by simp
qed

text \<open>
  \<open>recv_message\<close>; \<open>loads\<close> stands for \<open>json.loads(complete_data.decode('utf-8'))\<close>,
  which raises on bytes that are not UTF-8 JSON.
\<close>

definition recv_message :: "(bytes \<Rightarrow> py_error + 'v) \<Rightarrow> rsock \<Rightarrow> 'v received \<times> rsock" where
  "recv_message loads sock =
     (case recv_loop sock [] of
        (NoMessage, sock') \<Rightarrow> (NoMessage, sock')
      | (Raised e, sock') \<Rightarrow> (Raised e, sock')
      | (Message chunks, sock') \<Rightarrow>
          (let complete_data = concat chunks in
           case loads complete_data of
             Inl e \<Rightarrow> (Raised e, sock')
           | Inr v \<Rightarrow> (Message v, sock')))"


section \<open>The framing round trip\<close>

lemma recv_exact_loop_ok:
  "[] \<notin> set sock \<Longrightarrow> concat sock = xs @ rest \<Longrightarrow> length data + length xs = n \<Longrightarrow>
     \<exists>sock'. recv_exact_loop sock n data = (Some (data @ xs), sock') \<and> concat sock' = rest \<and> [] \<notin> set sock'"
proof (induction sock n data arbitrary: xs rule: recv_exact_loop.induct)
  case (1 sock n data)
  show ?case
  proof (cases "length data < n")
    case False
    with "1.prems" show ?thesis by auto
  next
    case True
    with "1.prems" have xs: "xs \<noteq> []" by auto
    with "1.prems" obtain p ps where sock: "sock = p # ps" and p: "p \<noteq> []"
      by (cases sock) auto
    define k where "k = n - length data"
    from "1.prems" have k: "k = length xs" by (auto simp add: k_def)
    define sock1 where "sock1 = (if length p \<le> k then ps else drop k p # ps)"
    have r: "recv sock (n - length data) = (take k p, sock1)"
      by (simp add: sock sock1_def k_def)
    from p xs k have ne: "take k p \<noteq> []" by (cases p) auto
    from "1.prems" sock have cat: "p @ concat ps = xs @ rest" by simp
    show ?thesis
    proof (cases "length p \<le> k")
      case le: True
      with cat k obtain xs' where xs': "xs = p @ xs'" and ps: "concat ps = xs' @ rest"
        by (auto simp: append_eq_append_conv2)
      from le have s1: "sock1 = ps" and tk: "take k p = p" by (simp_all add: sock1_def)
      from "1.prems" sock have a: "[] \<notin> set sock1" by (simp add: s1)
      from "1.prems" xs' have b: "length (data @ take k p) + length xs' = n" by (simp add: tk)
      from "1.IH" [OF True r [symmetric] ne a _ b] ps s1
      obtain sock' where "recv_exact_loop sock1 n (data @ take k p) = (Some ((data @ take k p) @ xs'), sock')"
        and "concat sock' = rest" and "[] \<notin> set sock'" by auto
      with True r ne xs' tk show ?thesis by simp
    next
      case gt: False
      with cat k obtain q where pq: "p = xs @ q" and q: "q \<noteq> []" and rest: "rest = q @ concat ps"
        by (auto simp: append_eq_append_conv2)
      from gt pq k have s1: "sock1 = q # ps" and tk: "take k p = xs" by (simp_all add: sock1_def)
      from "1.prems" sock q have a: "[] \<notin> set sock1" by (auto simp add: s1)
      from "1.prems" have b: "length (data @ take k p) + length ([]::bytes) = n" by (simp add: tk)
      from rest s1 have c: "concat sock1 = [] @ rest" by simp
      from "1.IH" [OF True r [symmetric] ne a c b]
      obtain sock' where "recv_exact_loop sock1 n (data @ take k p) = (Some ((data @ take k p) @ []), sock')"
        and "concat sock' = rest" and "[] \<notin> set sock'" by auto
      with True r ne tk show ?thesis by simp
    qed
  qed
qed


lemma recv_exact_ok:
  "[] \<notin> set sock \<Longrightarrow> concat sock = xs @ rest \<Longrightarrow> length xs = n \<Longrightarrow>
     \<exists>sock'. recv_exact sock n = (Some xs, sock') \<and> concat sock' = rest \<and> [] \<notin> set sock'"
  using recv_exact_loop_ok [of sock xs rest "[]" n] by (simp add: recv_exact_def)

lemma word8_of_nat_unat: "unat (of_nat k :: byte) = k mod 256"
  by (simp add: unat_of_nat)

lemma be32_digits:
  fixes n :: nat
  assumes "n < 4294967296"
  shows "n div 16777216 mod 256 * 16777216 + n div 65536 mod 256 * 65536
           + n div 256 mod 256 * 256 + n mod 256 = n"
proof -
  have a: "n mod (256 * 256) = 256 * (n div 256 mod 256) + n mod 256"
    by (rule mod_mult2_eq)
  have b: "n mod (65536 * 256) = 65536 * (n div 65536 mod 256) + n mod 65536"
    by (rule mod_mult2_eq)
  have c: "n mod (16777216 * 256) = 16777216 * (n div 16777216 mod 256) + n mod 16777216"
    by (rule mod_mult2_eq)
  from assms have "n mod (16777216 * 256) = n" by simp
  with a b c show ?thesis by simp
qed

lemma pack_I_ok: 
  assumes "n < 2 ^ 32" 
  shows "\<exists>bs. pack_I n = Inr bs \<and> length bs = 4 \<and> unpack_I bs = Inr n"
  using assms be32_digits [of n] by (simp add: pack_I_def word8_of_nat_unat)

lemma send_loop_recv_loop:
  "offset \<le> length data \<Longrightarrow>
   \<exists>body. send_loop data offset sock = Inr (sock @ body) \<and>
     (\<forall>s chunks rest. [] \<notin> set s \<longrightarrow> concat s = body @ [0, 0, 0, 0] @ rest \<longrightarrow>
        (\<exists>chunks' s'. recv_loop s chunks = (Message chunks', s') \<and>
            concat chunks' = concat chunks @ drop offset data \<and>
            concat s' = rest \<and> [] \<notin> set s'))"
proof (induction data offset sock rule: send_loop.induct)
  case (1 data offset sock)
  show ?case
  proof (cases "offset < length data")
    case False
    with "1.prems" have off: "offset = length data" by simp
    have "\<exists>chunks' s'. recv_loop s chunks = (Message chunks', s') \<and>
            concat chunks' = concat chunks @ drop offset data \<and> concat s' = rest \<and> [] \<notin> set s'"
      if s: "[] \<notin> set s" and cat: "concat s = [0, 0, 0, 0] @ rest" for s chunks rest
    proof -
      have "length [0::byte, 0, 0, 0] = 4" by simp
      from recv_exact_ok [OF s cat this] obtain s1
        where "recv_exact s 4 = (Some [0, 0, 0, 0], s1)" "concat s1 = rest" "[] \<notin> set s1"
        by auto
      then show ?thesis
        by (subst recv_loop.simps) (simp add: off)
    qed
    with False show ?thesis by simp
  next
    case True
    define cl where "cl = min CHUNK_SIZE (length data - offset)"
    define cd where "cd = slice offset (offset + cl) data"
    from True have cl0: "cl \<noteq> 0" and clC: "cl \<le> CHUNK_SIZE" and cll: "offset + cl \<le> length data"
      by (simp_all add: cl_def CHUNK_SIZE_def)
    then have "cl < 2 ^ 32" by (simp add: CHUNK_SIZE_def)
    from pack_I_ok [OF this] obtain pre
      where pre: "pack_I cl = Inr pre" "length pre = 4" "unpack_I pre = Inr cl" by auto
    have cdl: "length cd = cl" using cll by (simp add: cd_def slice_def)
    have cdd: "cd @ drop (offset + cl) data = drop offset data"
      by (simp add: cd_def slice_def add.commute [of offset cl] drop_drop [symmetric] del: drop_drop)
    have clm: "cl = min CHUNK_SIZE (length data - offset)" by (simp add: cl_def)
    from "1.IH" [OF True refl clm cd_def pre(1) cll]
    obtain body where snd: "send_loop data (offset + cl) ((sock @ pre) @ cd) = Inr (((sock @ pre) @ cd) @ body)"
      and rcv: "\<And>s chunks rest. [] \<notin> set s \<Longrightarrow> concat s = body @ [0, 0, 0, 0] @ rest \<Longrightarrow>
          (\<exists>chunks' s'. recv_loop s chunks = (Message chunks', s') \<and>
              concat chunks' = concat chunks @ drop (offset + cl) data \<and>
              concat s' = rest \<and> [] \<notin> set s')"
      by blast
    have s0: "send_loop data offset sock = Inr (sock @ (pre @ cd @ body))"
      using True pre(1) snd
      by (subst send_loop.simps) (simp add: Let_def cl_def [symmetric] cd_def [symmetric])
    have "\<exists>chunks' s'. recv_loop s chunks = (Message chunks', s') \<and>
            concat chunks' = concat chunks @ drop offset data \<and> concat s' = rest \<and> [] \<notin> set s'"
      if s: "[] \<notin> set s" and cat: "concat s = (pre @ cd @ body) @ [0, 0, 0, 0] @ rest" for s chunks rest
    proof -
      from cat have cat1: "concat s = pre @ (cd @ body @ [0, 0, 0, 0] @ rest)" by simp
      from recv_exact_ok [OF s cat1 pre(2)] obtain s1
        where r1: "recv_exact s 4 = (Some pre, s1)" and c1: "concat s1 = cd @ (body @ [0, 0, 0, 0] @ rest)"
          and n1: "[] \<notin> set s1"
        by auto
      from recv_exact_ok [OF n1 c1 cdl] obtain s2
        where r2: "recv_exact s1 cl = (Some cd, s2)" and c2: "concat s2 = body @ [0, 0, 0, 0] @ rest"
          and n2: "[] \<notin> set s2"
        by auto
      from rcv [OF n2 c2, of "chunks @ [cd]"] obtain chunks' s'
        where r3: "recv_loop s2 (chunks @ [cd]) = (Message chunks', s')"
          and c3: "concat chunks' = concat (chunks @ [cd]) @ drop (offset + cl) data"
          and "concat s' = rest" "[] \<notin> set s'"
        by blast
      moreover from pre(2) have "pre \<noteq> []" by auto
      moreover from cdl cl0 have "cd \<noteq> []" by auto
      moreover from c3 cdd have "concat chunks' = concat chunks @ drop offset data" by simp
      ultimately show ?thesis
        using r1 r2 pre(3) cl0 clC
        by (subst recv_loop.simps) simp
    qed
    with s0 show ?thesis by blast
  qed
qed

section \<open>JSON values and Python dictionaries\<close>

datatype json =
    JNull
  | JBool bool
  | JInt int
  | JStr string
  | JList "json list"
  | JDict "(string \<times> json) list"

text \<open>
  A Python \<open>dict\<close> with string keys, in insertion order.  \<open>d[k] = v\<close> is
  \<open>AList.update k v d\<close>: an existing key keeps its position, a new key goes last.
\<close>

type_synonym pydict = "(string \<times> json) list"

text \<open>Python's truth value of a JSON value (\<open>if x:\<close>, \<open>not x\<close>).\<close>

fun truthy :: "json \<Rightarrow> bool" where
  "truthy JNull = False"
| "truthy (JBool b) = b"
| "truthy (JInt i) = (i \<noteq> 0)"
| "truthy (JStr s) = (s \<noteq> [])"
| "truthy (JList xs) = (xs \<noteq> [])"
| "truthy (JDict d) = (d \<noteq> [])"

text \<open>\<open>x[0]\<close>.\<close>

fun index0 :: "json \<Rightarrow> py_error + json" where
  "index0 (JList []) = Inl IndexError"
| "index0 (JList (x # xs)) = Inr x"
| "index0 (JStr []) = Inl IndexError"
| "index0 (JStr (c # cs)) = Inr (JStr [c])"
| "index0 (JDict d) = Inl KeyError"
| "index0 _ = Inl TypeError"

text \<open>\<open>x[k]\<close> for a string key \<open>k\<close>.\<close>

fun subscript :: "json \<Rightarrow> string \<Rightarrow> py_error + json" where
  "subscript (JDict d) k = (case map_of d k of None \<Rightarrow> Inl KeyError | Some v \<Rightarrow> Inr v)"
| "subscript _ k = Inl TypeError"

text \<open>A name that a request may leave out: \<open>request.get('name')\<close> is then \<open>None\<close>.\<close>

fun json_of_name :: "string option \<Rightarrow> json" where
  "json_of_name None = JNull"
| "json_of_name (Some s) = JStr s"

text \<open>\<open>str(n)\<close> for an integer.\<close>

function str_nat :: "nat \<Rightarrow> string" where
  "str_nat n =
     (if n < 10 then [char_of (48 + n)]
      else str_nat (n div 10) @ [char_of (48 + n mod 10)])"
  by pat_completeness auto
termination
  by (relation "measure (\<lambda>n. n)") auto

definition str_int :: "int \<Rightarrow> string" where
  "str_int i = (if i < 0 then CHR ''-'' # str_nat (nat (- i)) else str_nat (nat i))"

text \<open>\<open>len(xs) < bound\<close> and \<open>len(xs) >= bound\<close> against a value read from a manifest.\<close>

fun len_lt :: "nat \<Rightarrow> json \<Rightarrow> py_error + bool" where
  "len_lt n (JInt b) = Inr (int n < b)"
| "len_lt n (JBool b) = Inr (int n < (if b then 1 else 0))"
| "len_lt n _ = Inl TypeError"

fun len_ge :: "nat \<Rightarrow> json \<Rightarrow> py_error + bool" where
  "len_ge n (JInt b) = Inr (int n \<ge> b)"
| "len_ge n (JBool b) = Inr (int n \<ge> (if b then 1 else 0))"
| "len_ge n _ = Inl TypeError"

text \<open>The text of \<open>f"{x}"\<close> for the values that pass \<open>len_lt\<close>.\<close>

fun format_json :: "json \<Rightarrow> string" where
  "format_json (JInt i) = str_int i"
| "format_json (JBool b) = (if b then ''True'' else ''False'')"
| "format_json JNull = ''None''"
| "format_json (JStr s) = s"
| "format_json _ = ''''"

section \<open>The document store (\<open>server/database_server.py\<close>)\<close>

text \<open>
  One collection is a dictionary from document id to document; \<open>collections\<close> and
  \<open>next_ids\<close> are dictionaries keyed by the collection's name.
\<close>

record database =
  collections :: "(string \<times> (int \<times> pydict) list) list"
  next_ids :: "(string \<times> int) list"

record db_request =
  collection :: "string option"
  db_action :: string
  data :: pydict

text \<open>The inner loop of \<open>query\<close> and \<open>delete\<close>: a document matches every filter.\<close>

definition doc_matches :: "pydict \<Rightarrow> pydict \<Rightarrow> bool" where
  "doc_matches filters doc =
     list_all (\<lambda>(key, value). \<not> (map_of doc key = None \<or> map_of doc key \<noteq> Some value)) filters"

text \<open>
  \<open>Database.query\<close>, \<open>Database.create\<close> and \<open>Database.delete\<close>.  A collection
  without an entry is the \<open>KeyError\<close> of the dictionary lookup.  Writing the snapshot
  file (\<open>save_to_file\<close>) is not modelled.
\<close>

definition query :: "database \<Rightarrow> string \<Rightarrow> pydict \<Rightarrow> py_error + json" where
  "query d coll filters =
     (case map_of (collections d) coll of
        None \<Rightarrow> Inl KeyError
      | Some docs \<Rightarrow> Inr (JList (map JDict (filter (doc_matches filters) (map snd docs)))))"

definition create :: "database \<Rightarrow> string \<Rightarrow> pydict \<Rightarrow> (py_error + json) \<times> database" where
  "create d coll dat =
     (case map_of (next_ids d) coll of
        None \<Rightarrow> (Inl KeyError, d)
      | Some doc_id \<Rightarrow>
          (let d1 = d\<lparr>next_ids := AList.update coll (doc_id + 1) (next_ids d)\<rparr>;
               document = fold (\<lambda>(k, v). AList.update k v) dat [(''id'', JInt doc_id)]
           in case map_of (collections d1) coll of
                None \<Rightarrow> (Inl KeyError, d1)
              | Some docs \<Rightarrow>
                  (Inr (JDict document),
                   d1\<lparr>collections :=
                        AList.update coll (AList.update doc_id document docs) (collections d1)\<rparr>)))"

definition delete :: "database \<Rightarrow> string \<Rightarrow> pydict \<Rightarrow> (py_error + json) \<times> database" where
  "delete d coll filters =
     (case map_of (collections d) coll of
        None \<Rightarrow> (Inl KeyError, d)
      | Some docs \<Rightarrow>
          (let results = filter (doc_matches filters) (map snd docs);
               kept = filter (\<lambda>(doc_id, doc). \<not> doc_matches filters doc) docs
           in (Inr (JDict [(''success'', JBool True), (''data'', JList (map JDict results))]),
               d\<lparr>collections := AList.update coll kept (collections d)\<rparr>)))"

text \<open>The text of an exception, \<open>str(e)\<close>; only its being a string matters here.\<close>

fun str_error :: "py_error \<Rightarrow> string" where
  "str_error IndexError = ''IndexError''"
| "str_error KeyError = ''KeyError''"
| "str_error TypeError = ''TypeError''"
| "str_error ValueError = ''ValueError''"
| "str_error AttributeError = ''AttributeError''"
| "str_error StructError = ''StructError''"
| "str_error FileNotFoundError = ''FileNotFoundError''"
| "str_error JSONDecodeError = ''JSONDecodeError''"
| "str_error OSError = ''OSError''"
| "str_error UnboundLocalError = ''UnboundLocalError''"

definition error_reply :: "string \<Rightarrow> json" where
  "error_reply msg = JDict [(''success'', JBool False), (''error'', JStr msg)]"

text \<open>\<open>data.get("filter", {})\<close> followed by \<open>filters.items()\<close>.\<close>

definition get_filter :: "pydict \<Rightarrow> py_error + pydict" where
  "get_filter dat =
     (case map_of dat ''filter'' of
        None \<Rightarrow> Inr []
      | Some (JDict f) \<Rightarrow> Inr f
      | Some _ \<Rightarrow> Inl AttributeError)"

text \<open>
  \<open>DBServer.process_request\<close>: every exception raised inside becomes an error reply.
\<close>

definition invalid_collection :: "string option \<Rightarrow> json" where
  "invalid_collection c = error_reply (''Invalid collection: '' @ format_json (json_of_name c))"

definition db_process_request :: "database \<Rightarrow> db_request \<Rightarrow> json \<times> database" where
  "db_process_request d request =
     (case collection request of
        None \<Rightarrow> (invalid_collection None, d)
      | Some coll \<Rightarrow>
          if map_of (collections d) coll = None then (invalid_collection (Some coll), d)
          else if db_action request = ''CREATE'' then
            (case create d coll (data request) of
               (Inl e, d') \<Rightarrow> (error_reply (str_error e), d')
             | (Inr document, d') \<Rightarrow> (document, d'))
          else if db_action request = ''DELETE'' then
            (case get_filter (data request) of
               Inl e \<Rightarrow> (error_reply (str_error e), d)
             | Inr filters \<Rightarrow>
                 (case delete d coll filters of
                    (Inl e, d') \<Rightarrow> (error_reply (str_error e), d')
                  | (Inr res, d') \<Rightarrow> (res, d')))
          else if db_action request = ''QUERY'' then
            (case get_filter (data request) of
               Inl e \<Rightarrow> (error_reply (str_error e), d)
             | Inr filters \<Rightarrow>
                 (case query d coll filters of
                    Inl e \<Rightarrow> (error_reply (str_error e), d)
                  | Inr res \<Rightarrow> (res, d)))
          else (error_reply (''Invalid action: '' @ db_action request), d))"

section \<open>The lobby (\<open>server/main_server.py\<close>)\<close>

subsection \<open>State\<close>

text \<open>
  A request is the dictionary a client sends; each field is what \<open>request.get(key)\<close>
  returns, \<open>None\<close> when the key is absent.  Names, passwords, roles and versions are
  strings and room ids are integers, as the two clients send them.  \<open>r_other_keys\<close>
  says whether the dictionary has any key besides those whose field is not \<open>None\<close>.
\<close>

record room_info =
  ri_host :: string
  ri_visibility :: string
  ri_game_name :: string
  ri_version :: string

record request =
  r_action :: "string option"
  r_requestId :: "string option"
  r_name :: "string option"
  r_password :: "string option"
  r_role :: "string option"
  r_player :: "string option"
  r_roomId :: "int option"
  r_player_name :: "string option"
  r_game_name :: "string option"
  r_version :: "string option"
  r_developer_name :: "string option"
  r_room_info :: "room_info option"
  r_other_keys :: bool

record room =
  host :: "string option"
  game_name :: string
  version :: string
  visibility :: string
  members :: "string option list"
  room_max :: json
  room_min :: json
  status :: string

text \<open>
  An entry of \<open>self.games\<close>.  Its third key, \<open>members\<close>, holds the room's own
  members list, not a copy of it; \<open>game_roster\<close> below reads it.
\<close>

record game =
  port :: int
  process :: nat

text \<open>A file or a directory below an installed game version.\<close>

datatype node = File bytes | Dir "(string \<times> node) list"

text \<open>
  The fields of \<open>MainServer\<close>, and around them what the lobby reaches: the document
  store behind \<open>DBClient\<close> (\<open>db_down\<close> holds the text of the exception when the store
  cannot be reached), the directory \<open>games/<name>/<version>\<close> of each installed game
  version, and the push messages written to other connections.  A connection is a
  number.
\<close>

record world =
  online_players :: "(string option \<times> nat) list"
  online_developers :: "(string option \<times> nat) list"
  next_room_id :: int
  rooms :: "(int \<times> room) list"
  next_game_port :: int
  games :: "(int \<times> game) list"
  db :: database
  db_down :: "string option"
  game_dirs :: "((string \<times> string) \<times> node) list"
  outbox :: "(nat \<times> pydict) list"

text \<open>
  Library functions and external collaborators, taken as parameters:
  \<open>hashlib.sha256(s.encode()).hexdigest()\<close>, \<open>base64.b64encode(b).decode('utf-8')\<close>,
  \<open>json.load\<close>, \<open>subprocess.Popen\<close> (the text of its exception, or a process handle),
  and the three packaging handlers \<open>upload_game\<close>, \<open>update_game\<close> and
  \<open>remove_game\<close>, which touch only the document store and the game directories.
\<close>

record lib =
  sha256_hex :: "string \<Rightarrow> string"
  b64encode :: "bytes \<Rightarrow> string"
  json_load :: "bytes \<Rightarrow> py_error + json"
  popen :: "string \<Rightarrow> string \<Rightarrow> int \<Rightarrow> nat \<Rightarrow> string + nat"
  packaging :: "string \<Rightarrow> request \<Rightarrow> string option \<Rightarrow> database \<Rightarrow>
                  ((string \<times> string) \<times> node) list \<Rightarrow>
                  (py_error + pydict) \<times> database \<times> ((string \<times> string) \<times> node) list"

definition initial_world :: world where
  "initial_world =
     \<lparr>online_players = [], online_developers = [], next_room_id = 1, rooms = [],
      next_game_port = 44848, games = [],
      db = \<lparr>collections = [(''Player'', []), (''Developer'', []), (''Game'', [])],
            next_ids = [(''Player'', 1), (''Developer'', 1), (''Game'', 1)]\<rparr>,
      db_down = None, game_dirs = [], outbox = []\<rparr>"

subsection \<open>\<open>DBClient.send_request\<close>\<close>

definition send_request :: "world \<Rightarrow> db_request \<Rightarrow> json \<times> world" where
  "send_request w request =
     (case db_down w of
        Some msg \<Rightarrow> (error_reply msg, w)
      | None \<Rightarrow>
          (case db_process_request (db w) request of
             (response, d') \<Rightarrow> (response, w\<lparr>db := d'\<rparr>)))"

definition user_query :: "string option \<Rightarrow> string option \<Rightarrow> db_request" where
  "user_query role name =
     \<lparr>collection = role, db_action = ''QUERY'',
      data = [(''filter'', JDict [(''userName'', json_of_name name)])]\<rparr>"

subsection \<open>Accounts: \<open>register\<close>, \<open>login\<close>, \<open>logout\<close>\<close>

definition register_reply :: "json \<Rightarrow> py_error + pydict" where
  "register_reply response =
     (if truthy response then Inr [(''success'', JBool True)]
      else case response of
             JDict d \<Rightarrow>
               Inr [(''success'', JBool False),
                    (''error'', case map_of d ''error'' of
                                  None \<Rightarrow> JStr ''Registration failed''
                                | Some v \<Rightarrow> v)]
           | _ \<Rightarrow> Inl AttributeError)"

definition register :: "lib \<Rightarrow> request \<Rightarrow> world \<Rightarrow> (py_error + pydict) \<times> world" where
  "register L request w =
     (let name = r_name request; password = r_password request; role = r_role request
      in case send_request w (user_query role name) of
        (existing, w1) \<Rightarrow>
          (case index0 existing of
             Inl e \<Rightarrow> (Inl e, w1)
           | Inr first \<Rightarrow>
               if truthy first then
                 (Inr [(''success'', JBool False),
                       (''error'', JStr ''Username already registered'')], w1)
               else
                 (case password of
                    None \<Rightarrow> (Inl AttributeError, w1)
                  | Some pw \<Rightarrow>
                      (let password_hash = sha256_hex L pw in
                       if role = Some ''Player'' then
                         (case send_request w1
                                 \<lparr>collection = role, db_action = ''CREATE'',
                                  data = [(''userName'', json_of_name name),
                                          (''passwordHash'', JStr password_hash),
                                          (''games_played'', JList [])]\<rparr> of
                            (response, w2) \<Rightarrow> (register_reply response, w2))
                       else if role = Some ''Developer'' then
                         (case send_request w1
                                 \<lparr>collection = role, db_action = ''CREATE'',
                                  data = [(''userName'', json_of_name name),
                                          (''passwordHash'', JStr password_hash)]\<rparr> of
                            (response, w2) \<Rightarrow> (register_reply response, w2))
                       else (Inl UnboundLocalError, w1)))))"

definition login :: "lib \<Rightarrow> request \<Rightarrow> nat \<Rightarrow> world \<Rightarrow> (py_error + pydict) \<times> world" where
  "login L request client_sock w =
     (let name = r_name request; password = r_password request; role = r_role request
      in if map_of (online_players w) name \<noteq> None then
           (Inr [(''success'', JBool False), (''error'', JStr ''User already online'')], w)
         else
           (case send_request w (user_query role name) of
              (user, w1) \<Rightarrow>
                if \<not> truthy user then
                  (Inr [(''success'', JBool False), (''error'', JStr ''User not found'')], w1)
                else
                  (case password of
                     None \<Rightarrow> (Inl AttributeError, w1)
                   | Some pw \<Rightarrow>
                       (let password_hash = sha256_hex L pw in
                        case index0 user of
                          Inl e \<Rightarrow> (Inl e, w1)
                        | Inr user0 \<Rightarrow>
                            (case subscript user0 ''passwordHash'' of
                               Inl e \<Rightarrow> (Inl e, w1)
                             | Inr stored \<Rightarrow>
                                 if stored \<noteq> JStr password_hash then
                                   (Inr [(''success'', JBool False),
                                         (''error'', JStr ''Invalid password'')], w1)
                                 else
                                   (let w2 =
                                      (if role = Some ''Player'' then
                                         w1\<lparr>online_players :=
                                              AList.update name client_sock (online_players w1)\<rparr>
                                       else if role = Some ''Developer'' then
                                         w1\<lparr>online_developers :=
                                              AList.update name client_sock (online_developers w1)\<rparr>
                                       else w1)
                                    in (Inr [(''success'', JBool True), (''data'', user)], w2)))))))"

definition logout :: "request \<Rightarrow> world \<Rightarrow> (py_error + pydict) \<times> world" where
  "logout request w =
     (let name = r_name request; role = r_role request
      in if role = Some ''Player'' then
           (case map_of (online_players w) name of
              None \<Rightarrow> (Inl KeyError, w)
            | Some sock \<Rightarrow>
                (Inr [(''success'', JBool True)],
                 w\<lparr>online_players := AList.delete name (online_players w)\<rparr>))
         else if role = Some ''Developer'' then
           (case map_of (online_developers w) name of
              None \<Rightarrow> (Inl KeyError, w)
            | Some sock \<Rightarrow>
                (Inr [(''success'', JBool True)],
                 w\<lparr>online_developers := AList.delete name (online_developers w)\<rparr>))
         else (Inr [(''success'', JBool False)], w))"

subsection \<open>Games on disk: \<open>list_games\<close>, \<open>download_game\<close>\<close>

definition list_games :: "request \<Rightarrow> world \<Rightarrow> (py_error + pydict) \<times> world" where
  "list_games request w =
     (let author = r_developer_name request;
          filt = (if truthy (json_of_name author)
                  then [(''developer_name'', json_of_name author)] else [])
      in case send_request w
                \<lparr>collection = Some ''Game'', db_action = ''QUERY'',
                 data = [(''filter'', JDict filt)]\<rparr> of
           (games', w1) \<Rightarrow> (Inr [(''success'', JBool True), (''data'', games')], w1))"

text \<open>
  \<open>open(game_path / "game_config.json")\<close> and \<open>json.load\<close>, with
  \<open>game_path = Path("games") / game_name / version\<close>.
\<close>

definition read_config :: "lib \<Rightarrow> world \<Rightarrow> string \<Rightarrow> string \<Rightarrow> py_error + json" where
  "read_config L w gname ver =
     (case map_of (game_dirs w) (gname, ver) of
        None \<Rightarrow> Inl FileNotFoundError
      | Some (File content) \<Rightarrow> Inl OSError
      | Some (Dir entries) \<Rightarrow>
          (case map_of entries ''game_config.json'' of
             None \<Rightarrow> Inl FileNotFoundError
           | Some (Dir sub) \<Rightarrow> Inl OSError
           | Some (File content) \<Rightarrow> json_load L content))"

text \<open>
  \<open>game_path.rglob('*')\<close>: every entry below a directory, with its path relative to
  it.  The entries of a directory are listed first, in the order of the listing, then
  the same is done for each of its subdirectories in turn.  \<open>None\<close> marks a
  directory, \<open>Some content\<close> a regular file.
\<close>

definition listing :: "string list \<Rightarrow> (string \<times> node) list \<Rightarrow> (string list \<times> bytes option) list" where
  "listing pre es =
     map (\<lambda>(n, x). (pre @ [n], case x of File content \<Rightarrow> Some content | Dir sub \<Rightarrow> None)) es"

fun rglob :: "string list \<Rightarrow> (string \<times> node) list \<Rightarrow> (string list \<times> bytes option) list"
  and descend :: "string list \<Rightarrow> (string \<times> node) list \<Rightarrow> (string list \<times> bytes option) list"
  where
  "rglob pre es = listing pre es @ descend pre es"
| "descend pre [] = []"
| "descend pre ((n, File content) # es) = descend pre es"
| "descend pre ((n, Dir sub) # es) = rglob (pre @ [n]) sub @ descend pre es"

text \<open>\<open>str(relative_path)\<close>: the components joined by \<open>/\<close>.\<close>

fun path_str :: "string list \<Rightarrow> string" where
  "path_str [] = ''.''"
| "path_str [n] = n"
| "path_str (n # m # ns) = n @ CHR ''/'' # path_str (m # ns)"

text \<open>The body of the \<open>for file_path in game_path.rglob('*')\<close> loop.\<close>

definition download_step :: "lib \<Rightarrow> pydict \<Rightarrow> string list \<times> bytes option \<Rightarrow> pydict" where
  "download_step L files entry =
     (case entry of
        (relative_path, None) \<Rightarrow> files
      | (relative_path, Some content) \<Rightarrow>
          if last relative_path = ''game_server.py'' then files
          else AList.update (path_str relative_path) (JStr (b64encode L content)) files)"

definition download_files :: "lib \<Rightarrow> (string \<times> node) list \<Rightarrow> pydict" where
  "download_files L entries = foldl (download_step L) [] (rglob [] entries)"

definition download_game :: "lib \<Rightarrow> request \<Rightarrow> world \<Rightarrow> (py_error + pydict) \<times> world" where
  "download_game L request w =
     (case (r_game_name request, r_version request) of
        (Some gname, Some ver) \<Rightarrow>
          (case read_config L w gname ver of
             Inl e \<Rightarrow> (Inl e, w)
           | Inr config \<Rightarrow>
               (case map_of (game_dirs w) (gname, ver) of
                  Some (Dir entries) \<Rightarrow>
                    (Inr [(''success'', JBool True), (''game_data'', config),
                          (''files'', JDict (download_files L entries))], w)
                | _ \<Rightarrow> (Inl FileNotFoundError, w)))
      | _ \<Rightarrow> (Inl TypeError, w))"

subsection \<open>Rooms: \<open>create_room\<close>, \<open>list_rooms\<close>, \<open>join_room\<close>, \<open>leave_room\<close>\<close>

definition list_players :: "world \<Rightarrow> (py_error + pydict) \<times> world" where
  "list_players w =
     (Inr [(''success'', JBool True),
           (''players'', JList (map (\<lambda>(n, sock). json_of_name n) (online_players w)))], w)"

definition create_room :: "lib \<Rightarrow> request \<Rightarrow> world \<Rightarrow> (py_error + pydict) \<times> world" where
  "create_room L reqeust w =
     (case r_room_info reqeust of
        None \<Rightarrow> (Inl TypeError, w)
      | Some room_info \<Rightarrow>
          (case read_config L w (ri_game_name room_info) (ri_version room_info) of
             Inl e \<Rightarrow> (Inl e, w)
           | Inr config \<Rightarrow>
               (let room_id = next_room_id w;
                    w1 = w\<lparr>next_room_id := next_room_id w + 1\<rparr>
                in case subscript config ''max_players'' of
                     Inl e \<Rightarrow> (Inl e, w1)
                   | Inr rmax \<Rightarrow>
                       (case subscript config ''min_players'' of
                          Inl e \<Rightarrow> (Inl e, w1)
                        | Inr rmin \<Rightarrow>
                            (Inr [(''success'', JBool True), (''roomId'', JInt room_id)],
                             w1\<lparr>rooms := AList.update room_id
                                   \<lparr>host = Some (ri_host room_info),
                                    game_name = ri_game_name room_info,
                                    version = ri_version room_info,
                                    visibility = ri_visibility room_info,
                                    members = [Some (ri_host room_info)],
                                    room_max = rmax, room_min = rmin,
                                    status = ''idle''\<rparr> (rooms w1)\<rparr>)))))"

definition room_json :: "int \<times> room \<Rightarrow> json" where
  "room_json entry =
     (case entry of (room_id, room) \<Rightarrow>
        JDict [(''roomId'', JInt room_id),
               (''host'', json_of_name (host room)),
               (''game_name'', JStr (game_name room)),
               (''version'', JStr (version room)),
               (''visibility'', JStr (visibility room)),
               (''members'', JList (map json_of_name (members room))),
               (''memberCount'', JInt (int (length (members room)))),
               (''room_max'', room_max room),
               (''room_min'', room_min room),
               (''status'', JStr (status room))])"

definition list_rooms :: "world \<Rightarrow> (py_error + pydict) \<times> world" where
  "list_rooms w =
     (Inr [(''success'', JBool True), (''rooms'', JList (map room_json (rooms w)))], w)"

text \<open>\<open>self.rooms[room_id]\<close>: \<open>KeyError\<close> when the id is \<open>None\<close> or not a key.\<close>

definition get_room :: "world \<Rightarrow> int option \<Rightarrow> py_error + int \<times> room" where
  "get_room w room_id =
     (case room_id of
        None \<Rightarrow> Inl KeyError
      | Some i \<Rightarrow> (case map_of (rooms w) i of None \<Rightarrow> Inl KeyError | Some room \<Rightarrow> Inr (i, room)))"

definition join_room :: "request \<Rightarrow> world \<Rightarrow> (py_error + pydict) \<times> world" where
  "join_room message w =
     (let player_name = r_player message; room_id = r_roomId message
      in case get_room w room_id of
           Inl e \<Rightarrow> (Inl e, w)
         | Inr (i, room) \<Rightarrow>
             (case len_ge (length (members room)) (room_max room) of
                Inl e \<Rightarrow> (Inl e, w)
              | Inr True \<Rightarrow>
                  (Inr [(''success'', JBool False), (''error'', JStr ''Room is full'')], w)
              | Inr False \<Rightarrow>
                  (Inr [(''success'', JBool True), (''message'', JStr ''Joined room'')],
                   if player_name \<notin> set (members room)
                   then w\<lparr>rooms := AList.update i
                            (room\<lparr>members := members room @ [player_name]\<rparr>) (rooms w)\<rparr>
                   else w)))"

definition leave_room :: "request \<Rightarrow> world \<Rightarrow> (py_error + pydict) \<times> world" where
  "leave_room message w =
     (let player_name = r_player message; room_id = r_roomId message
      in case get_room w room_id of
           Inl e \<Rightarrow> (Inr [(''success'', JBool False), (''error'', JStr ''Room not found'')], w)
         | Inr (i, room) \<Rightarrow>
             (Inr [(''success'', JBool True), (''message'', JStr ''Left room'')],
              if player_name \<in> set (members room) then
                (let room1 = room\<lparr>members := remove1 player_name (members room)\<rparr>
                 in if length (members room1) = 0 then
                      w\<lparr>rooms := AList.delete i (rooms w)\<rparr>
                    else if player_name = host room1 then
                      w\<lparr>rooms := AList.update i
                           (room1\<lparr>host := hd (members room1)\<rparr>) (rooms w)\<rparr>
                    else w\<lparr>rooms := AList.update i room1 (rooms w)\<rparr>)
              else w))"

subsection \<open>Matches: \<open>start_game\<close>, \<open>notify_room_members\<close>, \<open>cleanup_game\<close>\<close>

text \<open>
  The block of \<open>start_game\<close> under \<open>with self.room_lock\<close>: the three guards, then the
  port allocation and the transition to \<open>playing\<close>.  It ends with an exception, with
  the reply of a failed guard, or with the allocated port.
\<close>

datatype locked_result = Refused pydict | Allocated int

definition start_game_locked ::
  "request \<Rightarrow> world \<Rightarrow> (py_error + locked_result) \<times> world" where
  "start_game_locked message w =
     (let room_id = r_roomId message; player_name = r_player_name message
      in case get_room w room_id of
           Inl e \<Rightarrow> (Inl e, w)
         | Inr (i, room) \<Rightarrow>
             if player_name \<noteq> host room then
               (Inr (Refused [(''success'', JBool False),
                              (''error'', JStr (''Only host can start the game'' @ [CHR 0x0A]))]), w)
             else
               (case len_lt (length (members room)) (room_min room) of
                  Inl e \<Rightarrow> (Inl e, w)
                | Inr True \<Rightarrow>
                    (Inr (Refused [(''success'', JBool False),
                                   (''error'', JStr (''Need at least '' @ format_json (room_min room)
                                                     @ '' players to start'' @ [CHR 0x0A]))]), w)
                | Inr False \<Rightarrow>
                    if status room = ''playing'' then
                      (Inr (Refused [(''success'', JBool False),
                                     (''error'', JStr ''Game is starting, please wait'')]), w)
                    else
                      (let game_port = next_game_port w
                       in (Inr (Allocated game_port),
                           w\<lparr>next_game_port := next_game_port w + 1,
                             rooms := AList.update i (room\<lparr>status := ''playing''\<rparr>) (rooms w)\<rparr>))))"

text \<open>
  \<open>notify_room_members\<close>: the message goes to the socket of every member that is in
  \<open>online_players\<close>; a member that is not is skipped (the \<open>KeyError\<close> is caught).
\<close>

definition notify_room_members :: "int \<Rightarrow> pydict \<Rightarrow> world \<Rightarrow> world" where
  "notify_room_members room_id message w =
     (case map_of (rooms w) room_id of
        None \<Rightarrow> w
      | Some room \<Rightarrow>
          w\<lparr>outbox := outbox w @
               concat (map (\<lambda>member. case map_of (online_players w) member of
                                        None \<Rightarrow> []
                                      | Some sock \<Rightarrow> [(sock, message)])
                           (members room))\<rparr>)"

definition lobby_host :: string where
  "lobby_host = ''140.113.17.11''"

text \<open>\<open>self.rooms[room_id]['status'] = 'idle'\<close> when the room still exists.\<close>

definition set_idle :: "int \<Rightarrow> world \<Rightarrow> world" where
  "set_idle room_id w =
     (case map_of (rooms w) room_id of
        None \<Rightarrow> w
      | Some room \<Rightarrow> w\<lparr>rooms := AList.update room_id (room\<lparr>status := ''idle''\<rparr>) (rooms w)\<rparr>)"

definition start_game :: "lib \<Rightarrow> request \<Rightarrow> world \<Rightarrow> (py_error + pydict) \<times> world" where
  "start_game L message w =
     (case start_game_locked message w of
        (Inl e, w1) \<Rightarrow> (Inl e, w1)
      | (Inr (Refused reply), w1) \<Rightarrow> (Inr reply, w1)
      | (Inr (Allocated game_port), w1) \<Rightarrow>
          (case (r_game_name message, r_version message, r_roomId message) of
             (Some gname, Some ver, Some room_id) \<Rightarrow>
               (let member_count =
                      (case map_of (rooms w1) room_id of
                         None \<Rightarrow> 0 | Some room \<Rightarrow> length (members room))
                in case popen L gname ver game_port member_count of
                     Inl e \<Rightarrow>
                       (Inr [(''success'', JBool False),
                             (''error'', JStr (''Failed to start game server: '' @ e))],
                        set_idle room_id w1)
                   | Inr proc \<Rightarrow>
                       (let w2 = w1\<lparr>games := AList.update room_id
                                        \<lparr>port = game_port, process = proc\<rparr>
                                        (games w1)\<rparr>;
                            w3 = notify_room_members room_id
                                   [(''action'', JStr ''GAME_STARTING''),
                                    (''gameStarter'', json_of_name (r_player_name message)),
                                    (''gamePort'', JInt game_port),
                                    (''gameHost'', JStr lobby_host),
                                    (''roomId'', JInt room_id)] w2
                        in (Inr [(''success'', JBool True),
                                 (''gamePort'', JInt game_port),
                                 (''gameHost'', JStr lobby_host),
                                 (''message'', JStr ''Game server started'')], w3)))
           | _ \<Rightarrow> (Inl TypeError, w1)))"

text \<open>
  \<open>self.games[room_id]['members']\<close>.  The entry shares the list with the room, so it
  follows every later JOIN_ROOM and LEAVE_ROOM; a room is deleted only when that list
  has become empty, and room ids are not used twice.
\<close>

definition game_roster :: "world \<Rightarrow> int \<Rightarrow> string option list" where
  "game_roster w room_id =
     (case map_of (rooms w) room_id of None \<Rightarrow> [] | Some room \<Rightarrow> members room)"

text \<open>
  \<open>cleanup_game\<close>, which the thread of \<open>wait_for_game_end\<close> runs when the match
  process has exited.
\<close>

definition cleanup_game :: "int \<Rightarrow> world \<Rightarrow> world" where
  "cleanup_game room_id w = set_idle room_id (w\<lparr>games := AList.delete room_id (games w)\<rparr>)"

subsection \<open>\<open>process_request\<close> and \<open>handle_client\<close>\<close>

definition run_packaging :: "lib \<Rightarrow> string \<Rightarrow> request \<Rightarrow> world \<Rightarrow> (py_error + pydict) \<times> world" where
  "run_packaging L act request w =
     (case packaging L act request (db_down w) (db w) (game_dirs w) of
        (res, d', g') \<Rightarrow> (res, w\<lparr>db := d', game_dirs := g'\<rparr>))"

definition dispatch :: "lib \<Rightarrow> request \<Rightarrow> nat \<Rightarrow> world \<Rightarrow> (py_error + pydict) \<times> world" where
  "dispatch L request client_sock w =
     (let action = r_action request
      in if action = Some ''REGISTER'' then register L request w
         else if action = Some ''LOGIN'' then login L request client_sock w
         else if action = Some ''LOGOUT'' then logout request w
         else if action = Some ''UPLOAD_GAME'' then run_packaging L ''UPLOAD_GAME'' request w
         else if action = Some ''UPDATE_GAME'' then run_packaging L ''UPDATE_GAME'' request w
         else if action = Some ''REMOVE_GAME'' then run_packaging L ''REMOVE_GAME'' request w
         else if action = Some ''LIST_GAMES'' then list_games request w
         else if action = Some ''LIST_PLAYERS'' then list_players w
         else if action = Some ''DOWNLOAD_GAME'' then download_game L request w
         else if action = Some ''CREATE_ROOM'' then create_room L request w
         else if action = Some ''JOIN_ROOM'' then join_room request w
         else if action = Some ''LIST_ROOMS'' then list_rooms w
         else if action = Some ''LEAVE_ROOM'' then leave_room request w
         else if action = Some ''START_GAME'' then start_game L request w
         else (Inr [(''status'', JStr ''error''), (''message'', JStr ''Unknown action'')], w))"

definition process_request :: "lib \<Rightarrow> request \<Rightarrow> nat \<Rightarrow> world \<Rightarrow> (py_error + pydict) \<times> world" where
  "process_request L request client_sock w =
     (let request_id = r_requestId request
      in case dispatch L request client_sock w of
           (Inl e, w1) \<Rightarrow> (Inl e, w1)
         | (Inr response, w1) \<Rightarrow>
             (if truthy (json_of_name request_id)
              then Inr (AList.update ''requestId'' (json_of_name request_id) response)
              else Inr response, w1))"

text \<open>\<open>if request\<close>: a dictionary is true unless it is empty.\<close>

definition request_truthy :: "request \<Rightarrow> bool" where
  "request_truthy request \<longleftrightarrow>
     r_other_keys request \<or> r_action request \<noteq> None \<or> r_requestId request \<noteq> None
     \<or> r_name request \<noteq> None \<or> r_password request \<noteq> None \<or> r_role request \<noteq> None
     \<or> r_player request \<noteq> None \<or> r_roomId request \<noteq> None
     \<or> r_player_name request \<noteq> None \<or> r_game_name request \<noteq> None
     \<or> r_version request \<noteq> None \<or> r_developer_name request \<noteq> None
     \<or> r_room_info request \<noteq> None"

text \<open>
  The \<open>finally\<close> block of \<open>handle_client\<close>.  \<open>current_user\<close> is \<open>None\<close> or the value
  \<open>response.get('userName')\<close> of a reply; the keys of both online maps are names.
\<close>

definition disconnect_cleanup :: "json option \<Rightarrow> world \<Rightarrow> py_error + world" where
  "disconnect_cleanup current_user w =
     (case current_user of
        None \<Rightarrow> Inr w
      | Some u \<Rightarrow>
          if \<not> truthy u then Inr w
          else
            (case u of
               JStr n \<Rightarrow>
                 Inr (w\<lparr>online_players := AList.delete (Some n) (online_players w),
                        online_developers := AList.delete (Some n) (online_developers w)\<rparr>)
             | JList xs \<Rightarrow> Inl TypeError
             | JDict d \<Rightarrow> Inl TypeError
             | _ \<Rightarrow> Inr w))"

text \<open>
  What one connection does from accept to close: the replies written to it, whether
  the serving loop ended by a \<open>break\<close> or by an exception that nothing catches (the
  thread dies with it), and the state of the lobby afterwards.  In both cases the
  \<open>finally\<close> block has run and the socket is closed.
\<close>

datatype ending = LoopEnded | Uncaught py_error

record served =
  replies :: "pydict list"
  ended :: ending
  final :: world

text \<open>
  The messages that arrive on one connection, in order, and then what \<open>recv_message\<close>
  does after the last of them: it returns \<open>None\<close>, or it raises.  An empty message
  ends the loop like \<open>None\<close> does, and what follows it is never read.
\<close>

fun serve :: "lib \<Rightarrow> nat \<Rightarrow> request list \<Rightarrow> py_error option \<Rightarrow> json option \<Rightarrow>
                pydict list \<Rightarrow> world \<Rightarrow> served" where
  "serve L client_sock [] closing current_user sent w =
     (case disconnect_cleanup current_user w of
        Inl e \<Rightarrow> \<lparr>replies = sent, ended = Uncaught e, final = w\<rparr>
      | Inr w' \<Rightarrow>
          \<lparr>replies = sent,
           ended = (case closing of None \<Rightarrow> LoopEnded | Some e \<Rightarrow> Uncaught e),
           final = w'\<rparr>)"
| "serve L client_sock (request # pending) closing current_user sent w =
     (if \<not> request_truthy request then
        (case disconnect_cleanup current_user w of
           Inl e \<Rightarrow> \<lparr>replies = sent, ended = Uncaught e, final = w\<rparr>
         | Inr w' \<Rightarrow> \<lparr>replies = sent, ended = LoopEnded, final = w'\<rparr>)
      else
        (case process_request L request client_sock w of
           (Inl e, w1) \<Rightarrow>
             (case disconnect_cleanup current_user w1 of
                Inl e' \<Rightarrow> \<lparr>replies = sent, ended = Uncaught e', final = w1\<rparr>
              | Inr w' \<Rightarrow> \<lparr>replies = sent, ended = Uncaught e, final = w'\<rparr>)
         | (Inr response, w1) \<Rightarrow>
             serve L client_sock pending closing
               (if r_action request = Some ''LOGIN'' \<and> truthy (JDict response)
                then map_of response ''userName'' else current_user)
               (sent @ [response]) w1))"

definition handle_client :: "lib \<Rightarrow> nat \<Rightarrow> request list \<Rightarrow> py_error option \<Rightarrow> world \<Rightarrow> served" where
  "handle_client L client_sock requests closing w = serve L client_sock requests closing None [] w"

section \<open>The JSON encoder (\<open>json.dumps(message).encode('utf-8')\<close>)\<close>

text \<open>
  The values that \<open>send_message\<close> is given are Python values, of which JSON values are
  a part: \<open>json.dumps\<close> also accepts a tuple, which it writes as an array, and a
  dictionary whose keys are integers, booleans or \<open>None\<close>, which it writes as the
  strings \<open>str(key)\<close>, \<open>true\<close>, \<open>false\<close> and \<open>null\<close>.  A dictionary is the list of its
  items in insertion order; floats are left out.
\<close>

datatype py_key = KStr string | KInt int | KBool bool | KNone

datatype py_value =
    PNone
  | PBool bool
  | PInt int
  | PStr string
  | PList "py_value list"
  | PTuple "py_value list"
  | PDict "(py_key \<times> py_value) list"

text \<open>
  \<open>py_encode_basestring_ascii\<close>, the encoder of strings under the default
  \<open>ensure_ascii=True\<close>: the quote and the backslash are escaped, the control characters
  \<open>\b \f \n \r \t\<close> have their short escapes, every other character outside
  \<open>' '\<close> .. \<open>'~'\<close> is written \<open>\u00xx\<close>.
\<close>

definition hex_digit :: "nat \<Rightarrow> char" where
  "hex_digit n = ''0123456789abcdef'' ! n"

definition escape :: "char \<Rightarrow> string" where
  "escape c =
     (if c = CHR 0x22 then [CHR 0x5C, CHR 0x22]
      else if c = CHR 0x5C then [CHR 0x5C, CHR 0x5C]
      else if c = CHR 0x08 then [CHR 0x5C, CHR ''b'']
      else if c = CHR 0x0C then [CHR 0x5C, CHR ''f'']
      else if c = CHR 0x0A then [CHR 0x5C, CHR ''n'']
      else if c = CHR 0x0D then [CHR 0x5C, CHR ''r'']
      else if c = CHR 0x09 then [CHR 0x5C, CHR ''t'']
      else if 0x20 \<le> (of_char c :: nat) \<and> (of_char c :: nat) \<le> 0x7E then [c]
      else [CHR 0x5C, CHR ''u'', CHR ''0'', CHR ''0'',
            hex_digit (of_char c div 16), hex_digit (of_char c mod 16)])"

definition encode_basestring_ascii :: "string \<Rightarrow> string" where
  "encode_basestring_ascii s = [CHR 0x22] @ concat (map escape s) @ [CHR 0x22]"

text \<open>The key of an item, as the encoder turns it into a string.\<close>

fun key_text :: "py_key \<Rightarrow> string" where
  "key_text (KStr s) = s"
| "key_text (KBool True) = ''true''"
| "key_text (KBool False) = ''false''"
| "key_text KNone = ''null''"
| "key_text (KInt i) = str_int i"

text \<open>\<open>', '.join(parts)\<close>, the default item separator.\<close>

fun join_items :: "string list \<Rightarrow> string" where
  "join_items [] = []"
| "join_items [p] = p"
| "join_items (p # q # ps) = p @ '', '' @ join_items (q # ps)"

fun json_dumps :: "py_value \<Rightarrow> string"
  and dumps_list :: "py_value list \<Rightarrow> string list"
  and dumps_dict :: "(py_key \<times> py_value) list \<Rightarrow> string list" where
  "json_dumps PNone = ''null''"
| "json_dumps (PBool True) = ''true''"
| "json_dumps (PBool False) = ''false''"
| "json_dumps (PInt i) = str_int i"
| "json_dumps (PStr s) = encode_basestring_ascii s"
| "json_dumps (PList xs) = ''['' @ join_items (dumps_list xs) @ '']''"
| "json_dumps (PTuple xs) = ''['' @ join_items (dumps_list xs) @ '']''"
| "json_dumps (PDict kvs) = ''{'' @ join_items (dumps_dict kvs) @ ''}''"
| "dumps_list [] = []"
| "dumps_list (x # xs) = json_dumps x # dumps_list xs"
| "dumps_dict [] = []"
| "dumps_dict ((k, v) # kvs) =
     (encode_basestring_ascii (key_text k) @ '': '' @ json_dumps v) # dumps_dict kvs"

text \<open>\<open>str.encode('utf-8')\<close> on characters below 256: one byte below 128, two above.\<close>

definition encode_utf8 :: "string \<Rightarrow> bytes" where
  "encode_utf8 s =
     concat (map (\<lambda>c. let n = (of_char c :: nat)
                       in if n < 128 then [of_nat n]
                          else [of_nat (192 + n div 64), of_nat (128 + n mod 64)]) s)"

definition dumps_bytes :: "py_value \<Rightarrow> bytes" where
  "dumps_bytes message = encode_utf8 (json_dumps message)"

text \<open>The scores that the match server of Dots and Boxes sends, and what a dictionary
  with the same items under string keys looks like.\<close>

definition scores :: py_value where
  "scores = PDict [(KInt 1, PInt 0), (KInt 2, PInt 0)]"

definition scores_by_name :: py_value where
  "scores_by_name = PDict [(KStr ''1'', PInt 0), (KStr ''2'', PInt 0)]"

section \<open>Requests and worlds used as concrete inputs\<close>

definition no_request :: request where
  "no_request =
     \<lparr>r_action = None, r_requestId = None, r_name = None, r_password = None, r_role = None,
      r_player = None, r_roomId = None, r_player_name = None, r_game_name = None,
      r_version = None, r_developer_name = None, r_room_info = None,
      r_other_keys = False\<rparr>"

definition user_doc :: "lib \<Rightarrow> string \<Rightarrow> string \<Rightarrow> pydict" where
  "user_doc L name password =
     [(''id'', JInt 1), (''userName'', JStr name), (''passwordHash'', JStr (sha256_hex L password))]"

text \<open>A lobby just started, whose store holds one player and one developer.\<close>

definition seeded_world :: "lib \<Rightarrow> world" where
  "seeded_world L =
     initial_world
       \<lparr>db := \<lparr>collections = [(''Player'', [(1, user_doc L ''alice'' ''secret'')]),
                              (''Developer'', [(1, user_doc L ''dave'' ''hunter2'')]),
                              (''Game'', [])],
               next_ids = [(''Player'', 2), (''Developer'', 2), (''Game'', 1)]\<rparr>\<rparr>"

text \<open>
  Stand-ins for the library functions, for evaluating the model on concrete inputs:
  the identity for the hash and the encoder, a manifest parser that knows one file
  content, a \<open>Popen\<close> that always succeeds, packaging handlers that do nothing.
\<close>

definition sample_lib :: lib where
  "sample_lib =
     \<lparr>sha256_hex = (\<lambda>s. s),
      b64encode = map (\<lambda>b. char_of (unat b)),
      json_load = (\<lambda>content.
         if content = [1] then Inr (JDict [(''max_players'', JInt 2), (''min_players'', JInt 2)])
         else Inl JSONDecodeError),
      popen = (\<lambda>gname ver game_port member_count. Inr 0),
      packaging = (\<lambda>act request down d g. (Inr [(''success'', JBool True)], d, g))\<rparr>"

definition login_request :: "string \<Rightarrow> string \<Rightarrow> string \<Rightarrow> request" where
  "login_request role name password =
     no_request\<lparr>r_action := Some ''LOGIN'', r_name := Some name,
                r_password := Some password, r_role := Some role\<rparr>"

section \<open>Claims\<close>

text \<open>
  Claim C8 says that a request with an undefined action is answered by an envelope
  with the keys \<open>success\<close> and \<open>error\<close>.  The \<open>else\<close> branch of \<open>process_request\<close>
  answers with the keys \<open>status\<close> and \<open>message\<close> instead: the reply to the action
  \<open>PING\<close> with correlation id \<open>42\<close> has neither \<open>success\<close> nor \<open>error\<close>.  The
  correlation id is echoed and the lobby's state is unchanged.
\<close>

theorem unknown_action_reply:
  "process_request L (no_request\<lparr>r_action := Some ''PING'', r_requestId := Some ''42''\<rparr>) c w =
     (Inr [(''status'', JStr ''error''), (''message'', JStr ''Unknown action''),
           (''requestId'', JStr ''42'')], w)"
  by (simp add: process_request_def dispatch_def no_request_def)

text \<open>
  Claim C1 says that the identity logged in on a connection is removed from its
  online map when the connection's serving loop ends.  \<open>handle_client\<close> reads the
  identity from the key \<open>userName\<close> of the LOGIN reply, which that reply does not have,
  so the \<open>finally\<close> block removes nothing: after alice logs in on connection 7 and the
  connection closes, alice is still mapped to connection 7, and her next LOGIN, on
  connection 8, is refused with \<open>User already online\<close>.
\<close>

theorem disconnect_keeps_session:
  "handle_client L 7 [login_request ''Player'' ''alice'' ''secret''] None (seeded_world L) =
     \<lparr>replies = [[(''success'', JBool True),
                  (''data'', JList [JDict (user_doc L ''alice'' ''secret'')])]],
      ended = LoopEnded,
      final = (seeded_world L)\<lparr>online_players := [(Some ''alice'', 7)]\<rparr>\<rparr>
   \<and> login L (login_request ''Player'' ''alice'' ''secret'') 8
        ((seeded_world L)\<lparr>online_players := [(Some ''alice'', 7)]\<rparr>) =
       (Inr [(''success'', JBool False), (''error'', JStr ''User already online'')],
        (seeded_world L)\<lparr>online_players := [(Some ''alice'', 7)]\<rparr>)"
  by (simp add: handle_client_def request_truthy_def process_request_def dispatch_def login_def
      login_request_def no_request_def seeded_world_def initial_world_def user_doc_def
      send_request_def user_query_def db_process_request_def get_filter_def query_def
      doc_matches_def disconnect_cleanup_def)

text \<open>
  Claim C2, amended.  The claim says that \<open>recv_message\<close> returns exactly the value
  that \<open>send_message\<close> was given, for every JSON-serialisable value.  What holds is
  this: for every value \<open>v\<close>, \<open>recv_message\<close> returns exactly what the JSON codec
  makes of \<open>v\<close>, that is \<open>json.loads(json.dumps(v).encode('utf-8').decode('utf-8'))\<close>,
  or raises what \<open>json.loads\<close> raises, whatever the length of the encoding (one chunk
  or many), however the network cuts the bytes into packets, and whatever follows the
  message on the connection; the bytes after the zero marker are left unread.  So the
  value received is exactly \<open>v\<close> whenever the JSON codec itself reproduces \<open>v\<close>: the
  framing loses nothing.  A value that \<open>json.dumps\<close> accepts and the codec does not
  reproduce comes back changed, as the example after the theorem shows.
\<close>

theorem send_recv_round_trip:
  "\<exists>frame. send_message dumps sock v = Inr (sock @ frame) \<and>
     (\<forall>packets rest. [] \<notin> set packets \<longrightarrow> concat packets = frame @ rest \<longrightarrow>
        (\<exists>sock'. recv_message loads packets =
                    (case loads (dumps v) of Inl e \<Rightarrow> Raised e | Inr v' \<Rightarrow> Message v', sock')
               \<and> concat sock' = rest
               \<and> (loads (dumps v) = Inr v \<longrightarrow>
                    recv_message loads packets = (Message v, sock'))))"
proof -
  from send_loop_recv_loop [of 0 "dumps v" sock]
  obtain body where snd: "send_loop (dumps v) 0 sock = Inr (sock @ body)"
    and rcv: "\<And>s chunks rest. [] \<notin> set s \<Longrightarrow> concat s = body @ [0, 0, 0, 0] @ rest \<Longrightarrow>
        (\<exists>chunks' s'. recv_loop s chunks = (Message chunks', s') \<and>
            concat chunks' = concat chunks @ drop 0 (dumps v) \<and>
            concat s' = rest \<and> [] \<notin> set s')"
    by auto
  have s: "send_message dumps sock v = Inr (sock @ (body @ [0, 0, 0, 0]))"
    by (simp add: send_message_def snd pack_I_def del: send_loop.simps)
  have "\<exists>sock'. recv_message loads packets =
                    (case loads (dumps v) of Inl e \<Rightarrow> Raised e | Inr v' \<Rightarrow> Message v', sock')
               \<and> concat sock' = rest
               \<and> (loads (dumps v) = Inr v \<longrightarrow>
                    recv_message loads packets = (Message v, sock'))"
    if ne: "[] \<notin> set packets" and cat: "concat packets = (body @ [0, 0, 0, 0]) @ rest"
    for packets rest
  proof -
    from cat have "concat packets = body @ [0, 0, 0, 0] @ rest" by simp
    from rcv [OF ne this, of "[]"] obtain chunks' s'
      where r: "recv_loop packets [] = (Message chunks', s')" "concat chunks' = dumps v"
        "concat s' = rest"
      by auto
    have "recv_message loads packets =
            (case loads (dumps v) of Inl e \<Rightarrow> Raised e | Inr v' \<Rightarrow> Message v', s')"
      using r(1,2) by (simp add: recv_message_def split: sum.splits)
    with r(3) show ?thesis by auto
  qed
  with s show ?thesis by blast
qed

text \<open>
  A message of 65537 bytes, sent as a chunk of 65536 bytes, a chunk of one byte and
  the zero marker, and received in four packets that cut through the length prefixes
  and the chunks; the byte that follows the message stays on the connection.
\<close>

theorem send_recv_round_trip_witness:
  "send_message (\<lambda>v. v) [] (replicate 65537 1) =
     Inr ([0, 1, 0, 0] @ replicate 65536 1 @ [0, 0, 0, 1, 1] @ [0, 0, 0, 0]) \<and>
   (\<exists>sock'. recv_message Inr
               [[0, 1, 0], 0 # replicate 40000 1,
                replicate 25536 1 @ [0, 0, 0, 1, 1, 0], [0, 0, 0, 9]]
                = (Message (replicate 65537 1), sock') \<and> concat sock' = [9])"
proof -
  let ?v = "replicate 65537 (1 :: byte)"
  let ?frame = "[0, 1, 0, 0] @ replicate 65536 (1 :: byte) @ [0, 0, 0, 1, 1] @ [0, 0, 0, 0]"
  from send_recv_round_trip [of "\<lambda>v. v" "[]" ?v Inr]
  obtain frame where f: "send_message (\<lambda>v. v) [] ?v = Inr ([] @ frame)"
    and r: "\<And>packets rest. [] \<notin> set packets \<Longrightarrow> concat packets = frame @ rest \<Longrightarrow>
              (\<exists>sock'. recv_message Inr packets = (Message ?v, sock') \<and> concat sock' = rest)"
    by simp blast
  have e: "send_message (\<lambda>v. v) [] ?v = Inr ?frame"
    by (simp add: send_message_def pack_I_def slice_def CHUNK_SIZE_def min_def)
  with f have frame: "frame = ?frame" by simp
  have "\<exists>sock'. recv_message Inr
               [[0, 1, 0], 0 # replicate 40000 1,
                replicate 25536 1 @ [0, 0, 0, 1, 1, 0], [0, 0, 0, 9]]
                = (Message ?v, sock') \<and> concat sock' = [9]"
    by (rule r) (simp_all add: frame replicate_add [symmetric])
  with e show ?thesis by simp
qed

text \<open>
  Claim C2 as it stands does not hold.  \<open>json.dumps\<close> writes an integer key of a
  dictionary as a string: the scores \<open>{1: 0, 2: 0}\<close> that the match server of Dots and
  Boxes sends and the dictionary \<open>{"1": 0, "2": 0}\<close> are two JSON-serialisable values
  with one encoding, \<open>{"1": 0, "2": 0}\<close>, so \<open>send_message\<close> writes the same 24 bytes
  for both.  \<open>recv_message\<close> returns what the decoder makes of the 16 bytes between
  the length prefix and the zero marker, whichever of the two was sent, so no decoder
  returns both: \<open>json.loads\<close> returns the dictionary with the string keys, and the
  client that reads \<open>scores[1]\<close> finds no such key.
\<close>

theorem json_round_trip_counterexample:
  "send_message dumps_bytes [] scores =
     Inr [0, 0, 0, 16,
          123, 34, 49, 34, 58, 32, 48, 44, 32, 34, 50, 34, 58, 32, 48, 125,
          0, 0, 0, 0]
   \<and> send_message dumps_bytes [] scores_by_name = send_message dumps_bytes [] scores
   \<and> scores \<noteq> scores_by_name
   \<and> (\<forall>loads :: bytes \<Rightarrow> py_error + 'v.
         recv_message loads
           [[0, 0, 0, 16,
             123, 34, 49, 34, 58, 32, 48, 44, 32, 34, 50, 34, 58, 32, 48, 125,
             0, 0, 0, 0]] =
         (case loads [123, 34, 49, 34, 58, 32, 48, 44, 32, 34, 50, 34, 58, 32, 48, 125] of
            Inl e \<Rightarrow> (Raised e, [])
          | Inr v \<Rightarrow> (Message v, [])))
   \<and> (\<forall>loads packets.
         \<not> (fst (recv_message loads packets) = Message scores
            \<and> fst (recv_message loads packets) = Message scores_by_name))"
proof -
  have d1: "dumps_bytes scores =
              [123, 34, 49, 34, 58, 32, 48, 44, 32, 34, 50, 34, 58, 32, 48, 125]"
    by (simp add: dumps_bytes_def encode_utf8_def scores_def encode_basestring_ascii_def
        escape_def str_int_def char_of_def bit_0)
  have d2: "dumps_bytes scores_by_name =
              [123, 34, 49, 34, 58, 32, 48, 44, 32, 34, 50, 34, 58, 32, 48, 125]"
    by (simp add: dumps_bytes_def encode_utf8_def scores_by_name_def
        encode_basestring_ascii_def escape_def str_int_def char_of_def bit_0)
  have s1: "send_message dumps_bytes [] scores =
     Inr [0, 0, 0, 16,
          123, 34, 49, 34, 58, 32, 48, 44, 32, 34, 50, 34, 58, 32, 48, 125,
          0, 0, 0, 0]"
    by (simp add: send_message_def pack_I_def slice_def CHUNK_SIZE_def min_def d1)
  have s2: "send_message dumps_bytes [] scores_by_name = send_message dumps_bytes [] scores"
    by (simp add: send_message_def d1 d2 del: send_loop.simps)
  have ne: "scores \<noteq> scores_by_name"
    by (simp add: scores_def scores_by_name_def)
  have r: "recv_message loads
           [[0, 0, 0, 16,
             123, 34, 49, 34, 58, 32, 48, 44, 32, 34, 50, 34, 58, 32, 48, 125,
             0, 0, 0, 0]] =
         (case loads [123, 34, 49, 34, 58, 32, 48, 44, 32, 34, 50, 34, 58, 32, 48, 125] of
            Inl e \<Rightarrow> (Raised e, [])
          | Inr v \<Rightarrow> (Message v, []))" for loads :: "bytes \<Rightarrow> py_error + 'v"
    by (simp add: recv_message_def recv_exact_def CHUNK_SIZE_def split: sum.splits)
  from s1 s2 ne r show ?thesis by simp
qed

text \<open>
  Claim C4 says that JOIN_ROOM on an absent room id fails with an error reply and
  leaves the connection open.  \<open>join_room\<close> indexes \<open>self.rooms[room_id]\<close> without
  the membership test that its sibling \<open>leave_room\<close> makes: on the absent room 99 it
  raises \<open>KeyError\<close>, which nothing catches, so no reply is written and the serving
  loop of the connection ends; \<open>leave_room\<close> answers the same room id with
  \<open>Room not found\<close>.
\<close>

theorem join_absent_room_raises:
  "handle_client L c
     [no_request\<lparr>r_action := Some ''JOIN_ROOM'', r_player := Some ''bob'', r_roomId := Some 99\<rparr>]
     None initial_world =
     \<lparr>replies = [], ended = Uncaught KeyError, final = initial_world\<rparr>
   \<and> handle_client L c
     [no_request\<lparr>r_action := Some ''LEAVE_ROOM'', r_player := Some ''bob'', r_roomId := Some 99\<rparr>]
     None initial_world =
     \<lparr>replies = [[(''success'', JBool False), (''error'', JStr ''Room not found'')]],
      ended = LoopEnded, final = initial_world\<rparr>"
  by (simp add: handle_client_def request_truthy_def process_request_def dispatch_def join_room_def
      leave_room_def get_room_def no_request_def initial_world_def disconnect_cleanup_def)

text \<open>
  The rest of claim C4, on a room that exists and whose capacity is an integer:
  a room at capacity refuses, a member joins again without effect, anyone else is
  appended.
\<close>

lemma join_existing_room:
  assumes "r_roomId message = Some i" and "map_of (rooms w) i = Some room"
    and "room_max room = JInt cap"
  shows "join_room message w =
     (if int (length (members room)) \<ge> cap then
        (Inr [(''success'', JBool False), (''error'', JStr ''Room is full'')], w)
      else if r_player message \<in> set (members room) then
        (Inr [(''success'', JBool True), (''message'', JStr ''Joined room'')], w)
      else
        (Inr [(''success'', JBool True), (''message'', JStr ''Joined room'')],
         w\<lparr>rooms := AList.update i
              (room\<lparr>members := members room @ [r_player message]\<rparr>) (rooms w)\<rparr>))"
  using assms by (simp add: join_room_def get_room_def)

text \<open>
  Claim C5 says that, for each role, a second LOGIN of a name that is online in that
  role fails and changes nothing.  \<open>login\<close> tests \<open>name in self.online_players\<close>
  whatever the role: developer dave, online on connection 1, logs in again on
  connection 2 with success, and \<open>online_developers\<close> now maps dave to connection 2.
\<close>

theorem developer_double_login:
  "login L (login_request ''Developer'' ''dave'' ''hunter2'') 2
     ((seeded_world L)\<lparr>online_developers := [(Some ''dave'', 1)]\<rparr>) =
     (Inr [(''success'', JBool True),
           (''data'', JList [JDict (user_doc L ''dave'' ''hunter2'')])],
      (seeded_world L)\<lparr>online_developers := [(Some ''dave'', 2)]\<rparr>)"
  by (simp add: login_def login_request_def no_request_def seeded_world_def initial_world_def
      user_doc_def send_request_def user_query_def db_process_request_def get_filter_def
      query_def doc_matches_def)

text \<open>The part of claim C5 that holds: a name in \<open>online_players\<close> is refused.\<close>

lemma login_already_online:
  "map_of (online_players w) (r_name request) \<noteq> None \<Longrightarrow>
     login L request client_sock w =
       (Inr [(''success'', JBool False), (''error'', JStr ''User already online'')], w)"
  by (simp add: login_def)

text \<open>
  Claim C9.  When the store is reachable, \<open>role\<close> names one of its collections and no
  document of that collection has the requested name as \<open>userName\<close>, \<open>register\<close>
  raises \<open>IndexError\<close> (from \<open>existing[0]\<close> on the empty result) and changes nothing.
  In \<open>handle_client\<close> nothing catches it: whatever the connection has been sent
  before, a REGISTER request then gets no reply, the later requests are never served
  and the serving loop ends with the exception, after the \<open>finally\<close> block.
\<close>

theorem register_fresh_raises:
  assumes "db_down w = None"
    and "r_action request = Some ''REGISTER''"
    and "r_role request = Some role"
    and "map_of (collections (db w)) role = Some docs"
    and "\<forall>(doc_id, doc) \<in> set docs. map_of doc ''userName'' \<noteq> Some (json_of_name (r_name request))"
    and "disconnect_cleanup current_user w = Inr w'"
  shows "register L request w = (Inl IndexError, w)
       \<and> serve L client_sock (request # pending) closing current_user sent w =
           \<lparr>replies = sent, ended = Uncaught IndexError, final = w'\<rparr>"
proof -
  from assms(5)
  have "filter (doc_matches [(''userName'', json_of_name (r_name request))]) (map snd docs) = []"
    by (auto simp: filter_empty_conv doc_matches_def)
  with assms(1,3,4) have r: "register L request w = (Inl IndexError, w)"
    by (simp add: register_def send_request_def user_query_def db_process_request_def
        get_filter_def query_def)
  with assms(2,6) show ?thesis
    by (simp add: request_truthy_def process_request_def dispatch_def)
qed

theorem register_fresh_raises_witness:
  "register sample_lib
     (no_request\<lparr>r_action := Some ''REGISTER'', r_name := Some ''bob'',
                 r_password := Some ''pw'', r_role := Some ''Player''\<rparr>)
     (seeded_world sample_lib) = (Inl IndexError, seeded_world sample_lib)
   \<and> handle_client sample_lib 3
       [no_request\<lparr>r_action := Some ''REGISTER'', r_name := Some ''bob'',
                    r_password := Some ''pw'', r_role := Some ''Player''\<rparr>,
        login_request ''Player'' ''bob'' ''pw'']
       None (seeded_world sample_lib) =
       \<lparr>replies = [], ended = Uncaught IndexError, final = seeded_world sample_lib\<rparr>"
  using register_fresh_raises
    [of "seeded_world sample_lib"
        "no_request\<lparr>r_action := Some ''REGISTER'', r_name := Some ''bob'',
                    r_password := Some ''pw'', r_role := Some ''Player''\<rparr>"
        "''Player''" "[(1, user_doc sample_lib ''alice'' ''secret'')]" None
        "seeded_world sample_lib" sample_lib 3
        "[login_request ''Player'' ''bob'' ''pw'']" None "[]"]
  by (simp add: handle_client_def seeded_world_def initial_world_def no_request_def
      user_doc_def disconnect_cleanup_def)

definition forbidden_reply :: pydict where
  "forbidden_reply =
     [(''success'', JBool False),
      (''error'', JStr (''Only host can start the game'' @ [CHR 0x0A]))]"

definition not_enough_reply :: "json \<Rightarrow> pydict" where
  "not_enough_reply rmin =
     [(''success'', JBool False),
      (''error'', JStr (''Need at least '' @ format_json rmin @ '' players to start'' @ [CHR 0x0A]))]"

definition already_starting_reply :: pydict where
  "already_starting_reply =
     [(''success'', JBool False), (''error'', JStr ''Game is starting, please wait'')]"

definition duel_room :: room where
  "duel_room =
     \<lparr>host = Some ''alice'', game_name = ''Duel_25'', version = ''1.0.0'',
      visibility = ''Public'', members = [Some ''alice'', Some ''bob''],
      room_max = JInt 2, room_min = JInt 2, status = ''idle''\<rparr>"

definition room_world :: world where
  "room_world = initial_world\<lparr>next_room_id := 2, rooms := [(1, duel_room)]\<rparr>"

definition start_request :: "string \<Rightarrow> int \<Rightarrow> request" where
  "start_request who i =
     no_request\<lparr>r_action := Some ''START_GAME'', r_roomId := Some i,
                r_player_name := Some who, r_game_name := Some ''Duel_25'',
                r_version := Some ''1.0.0''\<rparr>"

section \<open>The lobby as a process: traces of events\<close>

text \<open>
  What happens to the lobby, one event at a time: a worker thread serves a request of
  its connection (\<open>process_request\<close>), a match process exits and its waiting thread
  runs \<open>cleanup_game\<close>, or a connection ends and its \<open>finally\<close> block runs.
\<close>

datatype event =
    Request nat request
  | ProcessExit int
  | ConnectionEnd "json option"

fun step :: "lib \<Rightarrow> event \<Rightarrow> world \<Rightarrow> (py_error + pydict) option \<times> world" where
  "step L (Request client_sock request) w =
     (case process_request L request client_sock w of (res, w') \<Rightarrow> (Some res, w'))"
| "step L (ProcessExit room_id) w = (None, cleanup_game room_id w)"
| "step L (ConnectionEnd current_user) w =
     (None, case disconnect_cleanup current_user w of Inl e \<Rightarrow> w | Inr w' \<Rightarrow> w')"

text \<open>The log of a trace: each event with what it returned.\<close>

fun run :: "lib \<Rightarrow> event list \<Rightarrow> world \<Rightarrow> (event \<times> (py_error + pydict) option) list" where
  "run L [] w = []"
| "run L (e # es) w = (case step L e w of (out, w') \<Rightarrow> (e, out) # run L es w')"

text \<open>The port that a successful START_GAME call returned.\<close>

fun allocated :: "event \<times> (py_error + pydict) option \<Rightarrow> int option" where
  "allocated (Request client_sock request, Some (Inr reply)) =
     (if r_action request = Some ''START_GAME'' \<and> map_of reply ''success'' = Some (JBool True)
      then (case map_of reply ''gamePort'' of Some (JInt p) \<Rightarrow> Some p | _ \<Rightarrow> None)
      else None)"
| "allocated _ = None"

text \<open>The ports returned by the successful START_GAME calls of a trace, in order.\<close>

definition allocated_ports :: "lib \<Rightarrow> event list \<Rightarrow> world \<Rightarrow> int list" where
  "allocated_ports L es w = List.map_filter allocated (run L es w)"

lemma send_request_port [simp]:
  "next_game_port (snd (send_request w q)) = next_game_port w"
  by (simp add: send_request_def split: option.splits prod.splits)

lemma register_port: "next_game_port (snd (register L r w)) = next_game_port w"
proof -
  have a: "next_game_port w1 = next_game_port w" if "send_request w q = (x, w1)" for q x w1 w
    using send_request_port [of w q] that by simp
  show ?thesis
    by (auto simp: register_def Let_def split: prod.splits sum.splits option.splits dest!: a)
qed

lemma login_port: "next_game_port (snd (login L r c w)) = next_game_port w"
proof -
  have a: "next_game_port w1 = next_game_port w" if "send_request w q = (x, w1)" for q x w1 w
    using send_request_port [of w q] that by simp
  show ?thesis
    by (auto simp: login_def Let_def split: prod.splits sum.splits option.splits dest!: a)
qed

lemma logout_port: "next_game_port (snd (logout r w)) = next_game_port w"
  by (auto simp: logout_def Let_def split: option.splits)

lemma list_games_port: "next_game_port (snd (list_games r w)) = next_game_port w"
proof -
  have a: "next_game_port w1 = next_game_port w" if "send_request w q = (x, w1)" for q x w1 w
    using send_request_port [of w q] that by simp
  show ?thesis
    by (auto simp: list_games_def Let_def split: prod.splits dest!: a)
qed

lemma download_game_port: "next_game_port (snd (download_game L r w)) = next_game_port w"
  by (auto simp: download_game_def split: prod.splits sum.splits option.splits node.splits)

lemma create_room_port: "next_game_port (snd (create_room L r w)) = next_game_port w"
  by (auto simp: create_room_def Let_def split: prod.splits sum.splits option.splits)

lemma join_room_port: "next_game_port (snd (join_room r w)) = next_game_port w"
  by (auto simp: join_room_def Let_def split: prod.splits sum.splits bool.splits)

lemma leave_room_port: "next_game_port (snd (leave_room r w)) = next_game_port w"
  by (auto simp: leave_room_def Let_def split: prod.splits sum.splits)

lemma run_packaging_port: "next_game_port (snd (run_packaging L a r w)) = next_game_port w"
  by (auto simp: run_packaging_def split: prod.splits)

lemma set_idle_port [simp]: "next_game_port (set_idle i w) = next_game_port w"
  by (simp add: set_idle_def split: option.splits)

lemma notify_port [simp]: "next_game_port (notify_room_members i m w) = next_game_port w"
  by (simp add: notify_room_members_def split: option.splits)

lemma cleanup_game_port [simp]: "next_game_port (cleanup_game i w) = next_game_port w"
  by (simp add: cleanup_game_def)

lemma disconnect_cleanup_port:
  "disconnect_cleanup u w = Inr w' \<Longrightarrow> next_game_port w' = next_game_port w"
  by (auto simp: disconnect_cleanup_def split: option.splits if_splits json.splits)

lemma start_game_locked_port:
  "start_game_locked m w = (res, w1) \<Longrightarrow>
     (case res of
        Inr (Allocated p) \<Rightarrow> p = next_game_port w \<and> next_game_port w1 = next_game_port w + 1
      | _ \<Rightarrow> w1 = w)"
  by (auto simp: start_game_locked_def Let_def
      split: sum.splits prod.splits bool.splits if_splits locked_result.splits)

lemma start_game_port:
  assumes "start_game L m w = (res, w')"
  shows "next_game_port w \<le> next_game_port w'
       \<and> (\<forall>reply. res = Inr reply \<longrightarrow> map_of reply ''success'' = Some (JBool True) \<longrightarrow>
             map_of reply ''gamePort'' = Some (JInt (next_game_port w))
             \<and> next_game_port w' = next_game_port w + 1)"
proof -
  obtain r1 w1 where l: "start_game_locked m w = (r1, w1)"
    by (cases "start_game_locked m w")
  show ?thesis
  proof (cases r1)
    case (Inl e)
    with l assms start_game_locked_port [OF l] show ?thesis
      by (auto simp: start_game_def)
  next
    case (Inr lr)
    show ?thesis
    proof (cases lr)
      case (Refused reply)
      with Inr l assms start_game_locked_port [OF l] show ?thesis
        by (auto simp: start_game_def start_game_locked_def Let_def
            split: sum.splits prod.splits bool.splits if_splits)
    next
      case (Allocated p)
      with Inr l start_game_locked_port [OF l]
      have p: "p = next_game_port w" "next_game_port w1 = next_game_port w + 1" by auto
      from Allocated Inr l assms p show ?thesis
        by (auto simp: start_game_def Let_def split: option.splits sum.splits)
    qed
  qed
qed

lemma dispatch_port:
  assumes "dispatch L r c w = (res, w')"
  shows "next_game_port w \<le> next_game_port w'
       \<and> (\<forall>reply. r_action r = Some ''START_GAME'' \<longrightarrow> res = Inr reply \<longrightarrow>
             map_of reply ''success'' = Some (JBool True) \<longrightarrow>
             map_of reply ''gamePort'' = Some (JInt (next_game_port w))
             \<and> next_game_port w' = next_game_port w + 1)"
proof (cases "r_action r = Some ''START_GAME''")
  case True
  with assms have "start_game L r w = (res, w')" by (simp add: dispatch_def)
  from start_game_port [OF this] show ?thesis by simp
next
  case False
  have "next_game_port (snd (dispatch L r c w)) = next_game_port w"
    using False
    by (simp add: dispatch_def Let_def register_port login_port logout_port list_games_port
        download_game_port create_room_port join_room_port leave_room_port run_packaging_port
        list_players_def list_rooms_def)
  with assms False show ?thesis by simp
qed

lemma process_request_port:
  assumes "process_request L r c w = (res, w')"
  shows "next_game_port w \<le> next_game_port w'
       \<and> (\<forall>reply. r_action r = Some ''START_GAME'' \<longrightarrow> res = Inr reply \<longrightarrow>
             map_of reply ''success'' = Some (JBool True) \<longrightarrow>
             map_of reply ''gamePort'' = Some (JInt (next_game_port w))
             \<and> next_game_port w' = next_game_port w + 1)"
proof -
  obtain r0 w0 where d: "dispatch L r c w = (r0, w0)" by (cases "dispatch L r c w")
  from dispatch_port [OF d] d assms show ?thesis
    by (auto simp: process_request_def Let_def update_conv' split: sum.splits if_splits)
qed

lemma step_port:
  assumes "step L e w = (out, w')"
  shows "next_game_port w \<le> next_game_port w'
       \<and> (\<forall>p. allocated (e, out) = Some p \<longrightarrow>
             p = next_game_port w \<and> next_game_port w' = p + 1)"
proof (cases e)
  case (Request c r)
  then obtain res where s: "process_request L r c w = (res, w')" and out: "out = Some res"
    using assms by (auto split: prod.splits)
  have "\<forall>p. allocated (e, out) = Some p \<longrightarrow> p = next_game_port w \<and> next_game_port w' = p + 1"
  proof (cases res)
    case (Inl err)
    with Request out show ?thesis by simp
  next
    case (Inr reply)
    from process_request_port [OF s] Inr
    have *: "r_action r = Some ''START_GAME'' \<Longrightarrow> map_of reply ''success'' = Some (JBool True) \<Longrightarrow>
             map_of reply ''gamePort'' = Some (JInt (next_game_port w))
             \<and> next_game_port w' = next_game_port w + 1"
      by blast
    show ?thesis
      using Inr Request out * by (auto split: if_splits)
  qed
  with process_request_port [OF s] show ?thesis by simp
next
  case (ProcessExit i)
  with assms show ?thesis by auto
next
  case (ConnectionEnd u)
  with assms show ?thesis
    by (auto split: sum.splits dest: disconnect_cleanup_port)
qed

lemma allocated_ports_bounds:
  "sorted_wrt (<) (allocated_ports L es w)
     \<and> (\<forall>p \<in> set (allocated_ports L es w). next_game_port w \<le> p)"
proof (induction es arbitrary: w)
  case Nil
  show ?case by (simp add: allocated_ports_def List.map_filter_simps)
next
  case (Cons e es)
  obtain out w' where s: "step L e w = (out, w')" by (cases "step L e w")
  have ap: "allocated_ports L (e # es) w =
              (case allocated (e, out) of None \<Rightarrow> allocated_ports L es w'
               | Some p \<Rightarrow> p # allocated_ports L es w')"
    using s by (simp add: allocated_ports_def List.map_filter_simps split: option.splits)
  from step_port [OF s]
  have mono: "next_game_port w \<le> next_game_port w'"
    and al: "\<And>p. allocated (e, out) = Some p \<Longrightarrow> p = next_game_port w \<and> next_game_port w' = p + 1"
    by auto
  from Cons.IH [of w']
  have ih1: "sorted_wrt (<) (allocated_ports L es w')"
    and ih2: "\<forall>p \<in> set (allocated_ports L es w'). next_game_port w' \<le> p" by auto
  show ?case
  proof (cases "allocated (e, out)")
    case None
    with ap ih1 ih2 mono show ?thesis by fastforce
  next
    case (Some p)
    with al have "p = next_game_port w" "next_game_port w' = p + 1" by auto
    with Some ap ih1 ih2 show ?thesis by fastforce
  qed
qed

lemma strictly_increasing_distinct: "sorted_wrt (<) (xs :: int list) \<Longrightarrow> distinct xs"
  by (induction xs) auto

text \<open>
  Claim C6.  Along every trace of the lobby, from any state, the ports returned by the
  successful START_GAME calls are strictly increasing in the order of the calls,
  whatever happens between them (other requests, matches ending, connections
  closing); so no two calls return the same port, and none is below the counter's
  value at the start.
\<close>

theorem ports_never_reused:
  "sorted_wrt (<) (allocated_ports L es w)
     \<and> distinct (allocated_ports L es w)
     \<and> (\<forall>p \<in> set (allocated_ports L es w). next_game_port w \<le> p)"
  using allocated_ports_bounds [of L es w] strictly_increasing_distinct by blast

theorem ports_never_reused_witness:
  "allocated_ports sample_lib
     [Request 1 (start_request ''alice'' 1), ProcessExit 1,
      Request 1 (start_request ''alice'' 1)] room_world = [44848, 44849]
   \<and> distinct (allocated_ports sample_lib
     [Request 1 (start_request ''alice'' 1), ProcessExit 1,
      Request 1 (start_request ''alice'' 1)] room_world)
   \<and> next_game_port room_world \<le> 44848"
proof -
  have "allocated_ports sample_lib
     [Request 1 (start_request ''alice'' 1), ProcessExit 1,
      Request 1 (start_request ''alice'' 1)] room_world = [44848, 44849]"
    by (simp add: allocated_ports_def List.map_filter_simps process_request_def dispatch_def
        start_game_def start_game_locked_def get_room_def start_request_def no_request_def
        room_world_def initial_world_def duel_room_def sample_lib_def Let_def
        notify_room_members_def cleanup_game_def set_idle_def)
  with ports_never_reused [of sample_lib
     "[Request 1 (start_request ''alice'' 1), ProcessExit 1,
       Request 1 (start_request ''alice'' 1)]" room_world]
  show ?thesis by simp
qed

section \<open>What \<open>download_game\<close> returns\<close>

text \<open>
  A directory listing as a file system gives it: within one directory no two entries
  share a name, and no name contains the separator \<open>/\<close>.
\<close>

fun well_formed :: "(string \<times> node) list \<Rightarrow> bool" where
  "well_formed [] = True"
| "well_formed ((n, File content) # es) =
     (CHR ''/'' \<notin> set n \<and> n \<notin> fst ` set es \<and> well_formed es)"
| "well_formed ((n, Dir sub) # es) =
     (CHR ''/'' \<notin> set n \<and> n \<notin> fst ` set es \<and> well_formed sub \<and> well_formed es)"

text \<open>The content of the regular file at a relative path, if there is one.\<close>

fun file_at :: "(string \<times> node) list \<Rightarrow> string list \<Rightarrow> bytes option" where
  "file_at es [] = None"
| "file_at es [n] = (case map_of es n of Some (File content) \<Rightarrow> Some content | _ \<Rightarrow> None)"
| "file_at es (n # m # p) =
     (case map_of es n of Some (Dir sub) \<Rightarrow> file_at sub (m # p) | _ \<Rightarrow> None)"

lemma file_at_absent: "n \<notin> fst ` set es \<Longrightarrow> file_at es (n # p) = None"
proof -
  assume "n \<notin> fst ` set es"
  then have "map_of es n = None" by (simp add: map_of_eq_None_iff)
  then show ?thesis by (cases p) simp_all
qed

lemma file_at_Cons_File:
  "file_at ((n, File content) # es) q =
     (if q = [n] then Some content
      else if q \<noteq> [] \<and> hd q = n then None else file_at es q)"
  by (cases "(es, q)" rule: file_at.cases) auto

lemma file_at_Cons_Dir:
  "file_at ((n, Dir sub) # es) q =
     (if q \<noteq> [] \<and> hd q = n then (if tl q = [] then None else file_at sub (tl q))
      else file_at es q)"
  by (cases "(es, q)" rule: file_at.cases) auto

lemma listing_files:
  "well_formed es \<Longrightarrow>
     (p, Some content) \<in> set (listing pre es) \<longleftrightarrow>
     (\<exists>n. p = pre @ [n] \<and> file_at es [n] = Some content)"
proof (induction es rule: well_formed.induct)
  case 1
  show ?case by (simp add: listing_def)
next
  case (2 m c es)
  then have ih: "(p, Some content) \<in> set (listing pre es) \<longleftrightarrow>
                   (\<exists>n. p = pre @ [n] \<and> file_at es [n] = Some content)"
    and fresh: "m \<notin> fst ` set es" by simp_all
  from file_at_absent [OF fresh] have none: "file_at es [m] = None" .
  have l: "listing pre ((m, File c) # es) = (pre @ [m], Some c) # listing pre es"
    by (simp add: listing_def)
  show ?case
  proof
    assume "(p, Some content) \<in> set (listing pre ((m, File c) # es))"
    then consider "p = pre @ [m]" "content = c" | "(p, Some content) \<in> set (listing pre es)"
      unfolding l by auto
    then show "\<exists>n. p = pre @ [n] \<and> file_at ((m, File c) # es) [n] = Some content"
    proof cases
      case 1
      then show ?thesis by simp
    next
      case 2
      with ih obtain n where n: "p = pre @ [n]" "file_at es [n] = Some content" by auto
      with none have "n \<noteq> m" by auto
      with n show ?thesis by (auto simp: file_at_Cons_File)
    qed
  next
    assume "\<exists>n. p = pre @ [n] \<and> file_at ((m, File c) # es) [n] = Some content"
    then obtain n where n: "p = pre @ [n]" "file_at ((m, File c) # es) [n] = Some content"
      by auto
    show "(p, Some content) \<in> set (listing pre ((m, File c) # es))"
    proof (cases "n = m")
      case True
      with n show ?thesis unfolding l by (simp add: file_at_Cons_File)
    next
      case False
      with n have "file_at es [n] = Some content" by (simp add: file_at_Cons_File)
      with n ih show ?thesis unfolding l by auto
    qed
  qed
next
  case (3 m sub es)
  then have ih: "(p, Some content) \<in> set (listing pre es) \<longleftrightarrow>
                   (\<exists>n. p = pre @ [n] \<and> file_at es [n] = Some content)"
    and fresh: "m \<notin> fst ` set es" by simp_all
  from file_at_absent [OF fresh] have none: "file_at es [m] = None" .
  have l: "listing pre ((m, Dir sub) # es) = (pre @ [m], None) # listing pre es"
    by (simp add: listing_def)
  show ?case
  proof
    assume "(p, Some content) \<in> set (listing pre ((m, Dir sub) # es))"
    then have "(p, Some content) \<in> set (listing pre es)" unfolding l by auto
    with ih obtain n where n: "p = pre @ [n]" "file_at es [n] = Some content" by auto
    with none have "n \<noteq> m" by auto
    with n show "\<exists>n. p = pre @ [n] \<and> file_at ((m, Dir sub) # es) [n] = Some content"
      by (auto simp: file_at_Cons_Dir)
  next
    assume "\<exists>n. p = pre @ [n] \<and> file_at ((m, Dir sub) # es) [n] = Some content"
    then obtain n where n: "p = pre @ [n]" "file_at ((m, Dir sub) # es) [n] = Some content"
      by auto
    then have "n \<noteq> m" "file_at es [n] = Some content"
      by (auto simp: file_at_Cons_Dir split: if_splits)
    with n ih show "(p, Some content) \<in> set (listing pre ((m, Dir sub) # es))"
      unfolding l by auto
  qed
qed

text \<open>A path of two components or more: a file inside a subdirectory.\<close>

definition deep :: "string list \<Rightarrow> bool" where
  "deep q \<longleftrightarrow> q \<noteq> [] \<and> tl q \<noteq> []"

lemma rglob_descend_files:
  "well_formed es \<Longrightarrow>
     (\<forall>p content. (p, Some content) \<in> set (rglob pre es) \<longleftrightarrow>
        (\<exists>q. p = pre @ q \<and> file_at es q = Some content))"
  "well_formed es' \<Longrightarrow>
     (\<forall>p content. (p, Some content) \<in> set (descend pre' es') \<longleftrightarrow>
        (\<exists>q. p = pre' @ q \<and> deep q \<and> file_at es' q = Some content))"
proof (induction pre es and pre' es' rule: rglob_descend.induct)
  case (1 pre es)
  show ?case
  proof (intro allI)
    fix p content
    from "1.IH" [OF "1.prems"]
    have d: "(p, Some content) \<in> set (descend pre es) \<longleftrightarrow>
               (\<exists>q. p = pre @ q \<and> deep q \<and> file_at es q = Some content)" by blast
    note l = listing_files [OF "1.prems", of p content pre]
    show "(p, Some content) \<in> set (rglob pre es) \<longleftrightarrow>
            (\<exists>q. p = pre @ q \<and> file_at es q = Some content)"
    proof
      assume "(p, Some content) \<in> set (rglob pre es)"
      then consider "(p, Some content) \<in> set (listing pre es)"
        | "(p, Some content) \<in> set (descend pre es)" by auto
      then show "\<exists>q. p = pre @ q \<and> file_at es q = Some content"
      proof cases
        case 1
        with l show ?thesis by blast
      next
        case 2
        with d show ?thesis by blast
      qed
    next
      assume "\<exists>q. p = pre @ q \<and> file_at es q = Some content"
      then obtain q where q: "p = pre @ q" "file_at es q = Some content" by auto
      then have ne: "q \<noteq> []" by auto
      show "(p, Some content) \<in> set (rglob pre es)"
      proof (cases "tl q = []")
        case True
        with ne obtain n where "q = [n]" by (cases q) auto
        with q l show ?thesis by auto
      next
        case False
        with ne have "deep q" by (simp add: deep_def)
        with q d show ?thesis by auto
      qed
    qed
  qed
next
  case (2 pre)
  show ?case by (auto simp: deep_def elim: file_at.elims)
next
  case (3 pre n c es)
  then have wf: "well_formed es" and fresh: "n \<notin> fst ` set es" by auto
  from "3.IH" [OF wf]
  have ih: "\<And>p content. (p, Some content) \<in> set (descend pre es) \<longleftrightarrow>
              (\<exists>q. p = pre @ q \<and> deep q \<and> file_at es q = Some content)" by blast
  show ?case
  proof (intro allI iffI)
    fix p content
    assume "(p, Some content) \<in> set (descend pre ((n, File c) # es))"
    with ih obtain q where q: "p = pre @ q" "deep q" "file_at es q = Some content" by auto
    with file_at_absent [OF fresh] have "q \<noteq> [] \<and> hd q \<noteq> n"
      by (cases q) auto
    with q show "\<exists>q. p = pre @ q \<and> deep q \<and> file_at ((n, File c) # es) q = Some content"
      by (intro exI [of _ q]) (auto simp: file_at_Cons_File deep_def)
  next
    fix p content
    assume "\<exists>q. p = pre @ q \<and> deep q \<and> file_at ((n, File c) # es) q = Some content"
    then obtain q where q: "p = pre @ q" "deep q" "file_at ((n, File c) # es) q = Some content"
      by auto
    then have "file_at es q = Some content"
      by (auto simp: file_at_Cons_File deep_def split: if_splits)
    with q ih show "(p, Some content) \<in> set (descend pre ((n, File c) # es))" by auto
  qed
next
  case (4 pre n sub es)
  then have wf: "well_formed es" and wfs: "well_formed sub" and fresh: "n \<notin> fst ` set es"
    by auto
  from "4.IH"(2) [OF wf]
  have ih: "\<And>p content. (p, Some content) \<in> set (descend pre es) \<longleftrightarrow>
              (\<exists>q. p = pre @ q \<and> deep q \<and> file_at es q = Some content)" by blast
  from "4.IH"(1) [OF wfs]
  have ihs: "\<And>p content. (p, Some content) \<in> set (rglob (pre @ [n]) sub) \<longleftrightarrow>
              (\<exists>q. p = (pre @ [n]) @ q \<and> file_at sub q = Some content)" by blast
  show ?case
  proof (intro allI iffI)
    fix p content
    assume "(p, Some content) \<in> set (descend pre ((n, Dir sub) # es))"
    then consider "(p, Some content) \<in> set (rglob (pre @ [n]) sub)"
      | "(p, Some content) \<in> set (descend pre es)"
      by auto
    then show "\<exists>q. p = pre @ q \<and> deep q \<and> file_at ((n, Dir sub) # es) q = Some content"
    proof cases
      case 1
      with ihs obtain q where q: "p = (pre @ [n]) @ q" "file_at sub q = Some content" by auto
      then have "q \<noteq> []" by auto
      with q show ?thesis
        by (intro exI [of _ "n # q"]) (simp add: file_at_Cons_Dir deep_def)
    next
      case 2
      with ih obtain q where q: "p = pre @ q" "deep q" "file_at es q = Some content" by auto
      with file_at_absent [OF fresh] have "q \<noteq> [] \<and> hd q \<noteq> n"
        by (cases q) auto
      with q show ?thesis by (intro exI [of _ q]) (auto simp: file_at_Cons_Dir)
    qed
  next
    fix p content
    assume "\<exists>q. p = pre @ q \<and> deep q \<and> file_at ((n, Dir sub) # es) q = Some content"
    then obtain q where q: "p = pre @ q" "deep q" "file_at ((n, Dir sub) # es) q = Some content"
      by auto
    show "(p, Some content) \<in> set (descend pre ((n, Dir sub) # es))"
    proof (cases "q \<noteq> [] \<and> hd q = n")
      case True
      with q have t: "tl q \<noteq> []" "file_at sub (tl q) = Some content"
        by (auto simp: file_at_Cons_Dir split: if_splits)
      from True q have "p = (pre @ [n]) @ tl q" by (cases q) auto
      with t ihs show ?thesis by auto
    next
      case False
      with q have "file_at es q = Some content" by (auto simp: file_at_Cons_Dir)
      with q ih show ?thesis by auto
    qed
  qed
qed

lemma rglob_files:
  "well_formed es \<Longrightarrow>
     (p, Some content) \<in> set (rglob pre es) \<longleftrightarrow>
     (\<exists>q. p = pre @ q \<and> file_at es q = Some content)"
  using rglob_descend_files(1) [of es pre] by blast

lemma well_formed_member:
  "well_formed es \<Longrightarrow> (n, x) \<in> set es \<Longrightarrow>
     CHR ''/'' \<notin> set n \<and> (\<forall>sub. x = Dir sub \<longrightarrow> well_formed sub)"
proof (induction es rule: well_formed.induct)
  case 1
  then show ?case by simp
next
  case (2 m content es)
  from "2.prems"(1) have wf: "well_formed es" and m: "CHR ''/'' \<notin> set m" by simp_all
  from "2.prems"(2) consider "n = m" "x = File content" | "(n, x) \<in> set es" by auto
  then show ?case
  proof cases
    case 1
    with m show ?thesis by simp
  next
    case 2
    with "2.IH" [OF wf] show ?thesis by simp
  qed
next
  case (3 m sub es)
  from "3.prems"(1) have wf: "well_formed es" and wfs: "well_formed sub"
    and m: "CHR ''/'' \<notin> set m" by simp_all
  from "3.prems"(2) consider "n = m" "x = Dir sub" | "(n, x) \<in> set es" by auto
  then show ?case
  proof cases
    case 1
    with m wfs show ?thesis by simp
  next
    case 2
    with "3.IH"(2) [OF wf] show ?thesis by simp
  qed
qed

lemma file_at_names:
  "well_formed es \<Longrightarrow> file_at es q = Some content \<Longrightarrow>
     q \<noteq> [] \<and> (\<forall>n \<in> set q. CHR ''/'' \<notin> set n)"
proof (induction es q rule: file_at.induct)
  case (1 es)
  then show ?case by simp
next
  case (2 es n)
  then obtain x where "map_of es n = Some x" by (auto split: option.splits)
  then have "(n, x) \<in> set es" by (rule map_of_SomeD)
  with well_formed_member [OF "2.prems"(1)] show ?case by auto
next
  case (3 es n m p)
  then obtain sub where m: "map_of es n = Some (Dir sub)" and f: "file_at sub (m # p) = Some content"
    by (auto split: option.splits node.splits)
  from m have mem: "(n, Dir sub) \<in> set es" by (rule map_of_SomeD)
  with well_formed_member [OF "3.prems"(1)] have n: "CHR ''/'' \<notin> set n" and wfs: "well_formed sub"
    by auto
  from "3.IH" [OF m refl wfs f] n show ?case by auto
qed

lemma separator_unique:
  "c \<notin> set a \<Longrightarrow> c \<notin> set b \<Longrightarrow> a @ c # s = b @ c # t \<Longrightarrow> a = b \<and> s = t"
proof (induction a arbitrary: b)
  case Nil
  then show ?case by (cases b) auto
next
  case (Cons x a)
  then show ?case by (cases b) auto
qed

lemma path_str_Cons:
  "path_str (n # ns) = (if ns = [] then n else n @ CHR ''/'' # path_str ns)"
  by (cases ns) auto

lemma path_str_inj:
  "p \<noteq> [] \<Longrightarrow> q \<noteq> [] \<Longrightarrow> \<forall>n \<in> set p. CHR ''/'' \<notin> set n \<Longrightarrow>
     \<forall>n \<in> set q. CHR ''/'' \<notin> set n \<Longrightarrow> path_str p = path_str q \<Longrightarrow> p = q"
proof (induction p arbitrary: q)
  case Nil
  then show ?case by simp
next
  case (Cons n ns)
  then obtain m ms where q: "q = m # ms" by (cases q) auto
  from Cons.prems q have nm: "CHR ''/'' \<notin> set n" "CHR ''/'' \<notin> set m" by auto
  show ?case
  proof (cases "ns = []")
    case True
    show ?thesis
    proof (cases "ms = []")
      case True
      with \<open>ns = []\<close> Cons.prems q show ?thesis by simp
    next
      case False
      with \<open>ns = []\<close> Cons.prems(5) q have "n = m @ CHR ''/'' # path_str ms"
        by (simp add: path_str_Cons)
      with nm show ?thesis by auto
    qed
  next
    case False
    show ?thesis
    proof (cases "ms = []")
      case True
      with False Cons.prems(5) q have "m = n @ CHR ''/'' # path_str ns"
        by (simp add: path_str_Cons)
      with nm show ?thesis by auto
    next
      case ms: False
      with False Cons.prems(5) q
      have "n @ CHR ''/'' # path_str ns = m @ CHR ''/'' # path_str ms"
        by (simp add: path_str_Cons)
      from separator_unique [OF nm this] have e: "n = m" "path_str ns = path_str ms" by auto
      from Cons.IH [OF False ms _ _ e(2)] Cons.prems q have "ns = ms" by auto
      with e q show ?thesis by simp
    qed
  qed
qed

text \<open>What one key of the files dictionary holds after the loop.\<close>

definition contributes :: "string list \<times> bytes option \<Rightarrow> string \<Rightarrow> bytes \<Rightarrow> bool" where
  "contributes entry k content \<longleftrightarrow>
     (\<exists>p. entry = (p, Some content) \<and> last p \<noteq> ''game_server.py'' \<and> path_str p = k)"

lemma download_step_other:
  "\<forall>content. \<not> contributes entry k content \<Longrightarrow>
     map_of (download_step L files entry) k = map_of files k"
  by (cases entry) (auto simp: download_step_def contributes_def update_conv' split: option.splits)

lemma download_step_this:
  "contributes entry k content \<Longrightarrow>
     map_of (download_step L files entry) k = Some (JStr (b64encode L content))"
  by (auto simp: download_step_def contributes_def update_conv')

lemma download_loop_other:
  "\<forall>entry \<in> set xs. \<forall>content. \<not> contributes entry k content \<Longrightarrow>
     map_of (foldl (download_step L) files xs) k = map_of files k"
  by (induction xs arbitrary: files) (simp_all add: download_step_other)

lemma download_loop_this:
  assumes "entry \<in> set xs" and "contributes entry k content"
    and "\<forall>e \<in> set xs. \<forall>c. contributes e k c \<longrightarrow> c = content"
  shows "map_of (foldl (download_step L) files xs) k = Some (JStr (b64encode L content))"
  using assms
proof (induction xs arbitrary: files entry)
  case Nil
  then show ?case by simp
next
  case (Cons x xs)
  from Cons.prems(3) have uniq: "\<forall>e \<in> set xs. \<forall>c. contributes e k c \<longrightarrow> c = content"
    by simp
  show ?case
  proof (cases "\<exists>e \<in> set xs. \<exists>c. contributes e k c")
    case True
    then obtain e c where e: "e \<in> set xs" and c: "contributes e k c" by blast
    with uniq have "c = content" by blast
    with c have "contributes e k content" by simp
    from Cons.IH [OF e this uniq, of "download_step L files x"]
    show ?thesis by simp
  next
    case False
    with Cons.prems(1,2) have x: "contributes x k content" by auto
    from False
    have "\<forall>e \<in> set xs. \<forall>c. \<not> contributes e k c" by blast
    then have "map_of (foldl (download_step L) (download_step L files x) xs) k
                       = map_of (download_step L files x) k"
      by (rule download_loop_other)
    with download_step_this [OF x] show ?thesis by simp
  qed
qed

text \<open>
  Claim C10.  For a DOWNLOAD_GAME request on an installed game version (its directory
  exists and its \<open>game_config.json\<close> loads), the reply is a success whose \<open>files\<close>
  dictionary maps the relative path of every regular file below the directory, except
  those named \<open>game_server.py\<close>, to the encoding of its content; and every key of the
  dictionary is the path of such a file, so no file named \<open>game_server.py\<close> is in it,
  at any depth.
\<close>

theorem download_game_files:
  assumes "r_game_name request = Some gname" and "r_version request = Some ver"
    and "map_of (game_dirs w) (gname, ver) = Some (Dir entries)"
    and "well_formed entries"
    and "read_config L w gname ver = Inr config"
  shows "download_game L request w =
           (Inr [(''success'', JBool True), (''game_data'', config),
                 (''files'', JDict (download_files L entries))], w)
       \<and> (\<forall>p content. file_at entries p = Some content \<and> last p \<noteq> ''game_server.py'' \<longrightarrow>
             map_of (download_files L entries) (path_str p) = Some (JStr (b64encode L content)))
       \<and> (\<forall>k \<in> fst ` set (download_files L entries).
             \<exists>p content. k = path_str p \<and> file_at entries p = Some content
                \<and> last p \<noteq> ''game_server.py'')"
proof (intro conjI allI impI ballI)
  show "download_game L request w =
           (Inr [(''success'', JBool True), (''game_data'', config),
                 (''files'', JDict (download_files L entries))], w)"
    using assms by (simp add: download_game_def)
next
  fix p content
  assume a: "file_at entries p = Some content \<and> last p \<noteq> ''game_server.py''"
  let ?xs = "rglob [] entries"
  from a rglob_files [OF assms(4), of p content "[]"]
  have mem: "(p, Some content) \<in> set ?xs" by simp
  from a have con: "contributes (p, Some content) (path_str p) content"
    by (simp add: contributes_def)
  have uniq: "\<forall>e \<in> set ?xs. \<forall>c. contributes e (path_str p) c \<longrightarrow> c = content"
  proof (intro ballI allI impI)
    fix e c
    assume e: "e \<in> set ?xs" and "contributes e (path_str p) c"
    then obtain p' where p': "e = (p', Some c)" "path_str p' = path_str p"
      by (auto simp: contributes_def)
    with e rglob_files [OF assms(4), of p' c "[]"] have f: "file_at entries p' = Some c"
      by simp
    from file_at_names [OF assms(4) f] file_at_names [OF assms(4) conjunct1 [OF a]] p'(2)
    have "p' = p" by (intro path_str_inj) auto
    with f a show "c = content" by simp
  qed
  from download_loop_this [OF mem con uniq]
  show "map_of (download_files L entries) (path_str p) = Some (JStr (b64encode L content))"
    by (simp add: download_files_def)
next
  fix k
  assume "k \<in> fst ` set (download_files L entries)"
  then have ne: "map_of (download_files L entries) k \<noteq> None"
    by (simp add: map_of_eq_None_iff)
  have "\<exists>e \<in> set (rglob [] entries). \<exists>c. contributes e k c"
  proof (rule ccontr)
    assume "\<not> (\<exists>e \<in> set (rglob [] entries). \<exists>c. contributes e k c)"
    then have "\<forall>e \<in> set (rglob [] entries). \<forall>c. \<not> contributes e k c" by blast
    from download_loop_other [OF this, of L "[]"] ne show False
      by (simp add: download_files_def)
  qed
  then obtain p c where m: "(p, Some c) \<in> set (rglob [] entries)"
    and l: "last p \<noteq> ''game_server.py''" and k: "path_str p = k"
    by (auto simp: contributes_def)
  from m rglob_files [OF assms(4), of p c "[]"] have "file_at entries p = Some c" by simp
  with l k show "\<exists>p content. k = path_str p \<and> file_at entries p = Some content
                \<and> last p \<noteq> ''game_server.py''"
    by blast
qed

definition duel_dir :: "(string \<times> node) list" where
  "duel_dir =
     [(''game_config.json'', File [1]),
      (''game_server.py'', File [2]),
      (''game_client.py'', File [3]),
      (''assets'', Dir [(''logo.png'', File [4]), (''game_server.py'', File [5])])]"

definition game_world :: world where
  "game_world = initial_world\<lparr>game_dirs := [((''Duel_25'', ''1.0.0''), Dir duel_dir)]\<rparr>"

theorem download_game_files_witness:
  "download_game sample_lib
     (no_request\<lparr>r_action := Some ''DOWNLOAD_GAME'', r_game_name := Some ''Duel_25'',
                 r_version := Some ''1.0.0''\<rparr>) game_world =
     (Inr [(''success'', JBool True),
           (''game_data'', JDict [(''max_players'', JInt 2), (''min_players'', JInt 2)]),
           (''files'', JDict [(''game_config.json'', JStr (b64encode sample_lib [1])),
                              (''game_client.py'', JStr (b64encode sample_lib [3])),
                              (''assets/logo.png'', JStr (b64encode sample_lib [4]))])],
      game_world)
   \<and> map_of (download_files sample_lib duel_dir) ''assets/logo.png''
       = Some (JStr (b64encode sample_lib [4]))
   \<and> ''assets/game_server.py'' \<notin> fst ` set (download_files sample_lib duel_dir)"
proof -
  have wf: "well_formed duel_dir" by (simp add: duel_dir_def)
  have cfg: "read_config sample_lib game_world ''Duel_25'' ''1.0.0''
               = Inr (JDict [(''max_players'', JInt 2), (''min_players'', JInt 2)])"
    by (simp add: read_config_def game_world_def initial_world_def duel_dir_def sample_lib_def)
  have dir: "map_of (game_dirs game_world) (''Duel_25'', ''1.0.0'') = Some (Dir duel_dir)"
    by (simp add: game_world_def initial_world_def)
  have files: "download_files sample_lib duel_dir =
      [(''game_config.json'', JStr (b64encode sample_lib [1])),
       (''game_client.py'', JStr (b64encode sample_lib [3])),
       (''assets/logo.png'', JStr (b64encode sample_lib [4]))]"
    by (simp add: download_files_def download_step_def duel_dir_def listing_def)
  have f4: "file_at duel_dir [''assets'', ''logo.png''] = Some [4]
              \<and> last [''assets'', ''logo.png''] \<noteq> ''game_server.py''"
    by (simp add: duel_dir_def)
  from download_game_files
    [of "no_request\<lparr>r_action := Some ''DOWNLOAD_GAME'', r_game_name := Some ''Duel_25'',
                     r_version := Some ''1.0.0''\<rparr>"
        "''Duel_25''" "''1.0.0''" game_world duel_dir sample_lib, OF _ _ dir wf cfg]
  have "download_game sample_lib
     (no_request\<lparr>r_action := Some ''DOWNLOAD_GAME'', r_game_name := Some ''Duel_25'',
                 r_version := Some ''1.0.0''\<rparr>) game_world =
      (Inr [(''success'', JBool True),
           (''game_data'', JDict [(''max_players'', JInt 2), (''min_players'', JInt 2)]),
           (''files'', JDict (download_files sample_lib duel_dir))], game_world)"
    and "\<forall>p content. file_at duel_dir p = Some content \<and> last p \<noteq> ''game_server.py'' \<longrightarrow>
             map_of (download_files sample_lib duel_dir) (path_str p)
               = Some (JStr (b64encode sample_lib content))"
    by (simp_all add: no_request_def)
  with f4 files show ?thesis by (simp del: file_at.simps)
qed

section \<open>The correlation client (\<open>player/player.py\<close>)\<close>

text \<open>
  A message from the lobby: the three keys that the client reads, each \<open>None\<close> when
  absent, and the whole dictionary.  Correlation ids are strings (the lobby echoes the
  id that the client generated).
\<close>

record message =
  m_action :: "string option"
  m_gameStarter :: "string option"
  m_requestId :: "string option"
  m_body :: pydict

text \<open>
  The fields of \<open>PlayerClient\<close> that the receiver thread and \<open>send_request\<close> share.
  \<open>player\<close> is the value of \<open>self.player["userName"]\<close>, \<open>None\<close> when the dictionary
  has no such key (nobody is logged in).
\<close>

record client =
  pending_requests :: "(string \<times> message) list"
  message_queue :: "message list"
  player :: "string option"
  connected :: bool

text \<open>
  One round of the loop of \<open>receive_lobby_messages\<close> on a decoded message.  An
  exception (the \<open>KeyError\<close> of \<open>self.player["userName"]\<close>) ends the loop, and so does
  \<open>connected\<close> being false; the \<open>finally\<close> block then clears \<open>connected\<close>.
\<close>

definition handle_message :: "client \<Rightarrow> message \<Rightarrow> client" where
  "handle_message c msg =
     (if \<not> connected c then c
      else if m_action msg = Some ''GAME_STARTING'' \<and> player c = None then
        c\<lparr>connected := False\<rparr>
      else if m_action msg = Some ''GAME_STARTING'' \<and> m_gameStarter msg \<noteq> player c then
        c\<lparr>message_queue := message_queue c @ [msg]\<rparr>
      else
        (case m_requestId msg of
           None \<Rightarrow> c
         | Some request_id \<Rightarrow>
             if request_id = [] then c
             else c\<lparr>pending_requests := AList.update request_id msg (pending_requests c)\<rparr>))"

definition timeout :: real where
  "timeout = 5"

definition timeout_reply :: pydict where
  "timeout_reply = [(''success'', JBool False), (''error'', JStr ''Request timeout'')]"

text \<open>
  The polling loop of \<open>send_request\<close>.  Its environment is the list of its rounds:
  what \<open>time.time()\<close> returns at the test of the round, and the messages that the
  receiver thread handles before the round takes the lock.  The result is \<open>None\<close> when
  the loop is still polling after the last round listed.
\<close>

fun wait_for_reply ::
  "string \<Rightarrow> real \<Rightarrow> (real \<times> message list) list \<Rightarrow> client \<Rightarrow> pydict option \<times> client" where
  "wait_for_reply request_id start_time [] c = (None, c)"
| "wait_for_reply request_id start_time ((now, arrived) # rounds) c =
     (if now - start_time < timeout then
        (let c1 = foldl handle_message c arrived
         in case map_of (pending_requests c1) request_id of
              Some response \<Rightarrow>
                (Some (m_body response),
                 c1\<lparr>pending_requests := AList.delete request_id (pending_requests c1)\<rparr>)
            | None \<Rightarrow> wait_for_reply request_id start_time rounds c1)
      else (Some timeout_reply, c))"

text \<open>
  \<open>send_request\<close>: the body of the \<open>try\<close>, where only \<open>send_message\<close> can raise
  (\<open>sent\<close> is its exception, if any; \<open>request_id\<close> is the fresh \<open>uuid4\<close>), and the
  \<open>except Exception\<close> around it.
\<close>

definition send_request_body ::
  "string \<Rightarrow> py_error option \<Rightarrow> real \<Rightarrow> (real \<times> message list) list \<Rightarrow> client \<Rightarrow>
     py_error + pydict option \<times> client" where
  "send_request_body request_id sent start_time rounds c =
     (case sent of
        Some e \<Rightarrow> Inl e
      | None \<Rightarrow> Inr (wait_for_reply request_id start_time rounds c))"

definition player_send_request ::
  "string \<Rightarrow> py_error option \<Rightarrow> real \<Rightarrow> (real \<times> message list) list \<Rightarrow> client \<Rightarrow>
     pydict option \<times> client" where
  "player_send_request request_id sent start_time rounds c =
     (case send_request_body request_id sent start_time rounds c of
        Inl e \<Rightarrow> (Some [(''success'', JBool False), (''error'', JStr (str_error e))], c)
      | Inr r \<Rightarrow> r)"

text \<open>What the receiver thread alone does to the client during some rounds.\<close>

definition receiver_only :: "client \<Rightarrow> (real \<times> message list) list \<Rightarrow> client" where
  "receiver_only c rounds = foldl handle_message c (concat (map snd rounds))"

lemma handle_message_unanswered:
  "m_requestId msg \<noteq> Some request_id \<Longrightarrow>
     map_of (pending_requests (handle_message c msg)) request_id
       = map_of (pending_requests c) request_id"
  by (auto simp: handle_message_def update_conv' split: option.splits)

lemma receiver_unanswered:
  "\<forall>msg \<in> set msgs. m_requestId msg \<noteq> Some request_id \<Longrightarrow>
     map_of (pending_requests (foldl handle_message c msgs)) request_id
       = map_of (pending_requests c) request_id"
  by (induction msgs arbitrary: c) (simp_all add: handle_message_unanswered)

lemma wait_for_reply_timeout:
  assumes "map_of (pending_requests c) request_id = None"
    and "\<forall>(now, arrived) \<in> set early. now - start_time < timeout
            \<and> (\<forall>msg \<in> set arrived. m_requestId msg \<noteq> Some request_id)"
    and "\<not> (now - start_time < timeout)"
  shows "wait_for_reply request_id start_time (early @ (now, arrived) # later) c
           = (Some timeout_reply, receiver_only c early)"
  using assms(1,2)
proof (induction early arbitrary: c)
  case Nil
  with assms(3) show ?case by (simp add: receiver_only_def)
next
  case (Cons r early)
  obtain t msgs where r: "r = (t, msgs)" by (cases r)
  with Cons.prems(2) have t: "t - start_time < timeout"
    and un: "\<forall>msg \<in> set msgs. m_requestId msg \<noteq> Some request_id"
    and rest: "\<forall>(now, arrived) \<in> set early. now - start_time < timeout
            \<and> (\<forall>msg \<in> set arrived. m_requestId msg \<noteq> Some request_id)"
    by auto
  let ?c1 = "foldl handle_message c msgs"
  from receiver_unanswered [OF un] Cons.prems(1)
  have none: "map_of (pending_requests ?c1) request_id = None" by simp
  from Cons.IH [OF none rest] r t none show ?case
    by (simp add: receiver_only_def)
qed

lemma receiver_only_idle:
  "\<forall>(now, arrived) \<in> set rounds. arrived = [] \<Longrightarrow> receiver_only c rounds = c"
proof -
  assume "\<forall>(now, arrived) \<in> set rounds. arrived = []"
  then have e: "concat (map snd rounds) = []" by (induction rounds) auto
  show ?thesis unfolding receiver_only_def e by simp
qed

text \<open>
  Claim C7.  A request has been sent under a fresh correlation id, and no message
  with that id arrives.  While the clock reads less than 5 seconds after the start the
  loop keeps polling; at the first test where 5 seconds have passed \<open>send_request\<close>
  returns the timeout error value.  It has written nothing: the client's state, and
  with it every entry of \<open>pending_requests\<close>, is what the receiver thread alone made
  of it, and is unchanged when no message arrived.  When sending itself raises, the
  exception is returned as an error value too.
\<close>

theorem request_timeout:
  assumes "map_of (pending_requests c) request_id = None"
    and "\<forall>(now, arrived) \<in> set early. now - start_time < timeout
            \<and> (\<forall>msg \<in> set arrived. m_requestId msg \<noteq> Some request_id)"
    and "timeout \<le> now - start_time"
  shows "player_send_request request_id None start_time (early @ (now, arrived) # later) c
           = (Some timeout_reply, receiver_only c early)
       \<and> ((\<forall>(now, arrived) \<in> set early. arrived = []) \<longrightarrow> receiver_only c early = c)
       \<and> player_send_request request_id (Some e) start_time rounds c
           = (Some [(''success'', JBool False), (''error'', JStr (str_error e))], c)"
proof -
  from assms(3) have "\<not> (now - start_time < timeout)" by simp
  from wait_for_reply_timeout [OF assms(1,2) this]
  have "player_send_request request_id None start_time (early @ (now, arrived) # later) c
           = (Some timeout_reply, receiver_only c early)"
    by (simp add: player_send_request_def send_request_body_def)
  then show ?thesis
    using receiver_only_idle [of early c]
    by (simp add: player_send_request_def send_request_body_def)
qed

definition other_reply :: message where
  "other_reply =
     \<lparr>m_action = None, m_gameStarter = None, m_requestId = Some ''r-2'',
      m_body = [(''success'', JBool True), (''requestId'', JStr ''r-2'')]\<rparr>"

definition waiting_client :: client where
  "waiting_client =
     \<lparr>pending_requests = [(''r-1'', other_reply\<lparr>m_requestId := Some ''r-1''\<rparr>)],
      message_queue = [], player = Some ''alice'', connected = True\<rparr>"

theorem request_timeout_witness:
  "player_send_request ''r-3'' None 100
     [(100.01, []), (102.5, [other_reply]), (105.02, []), (105.03, [])] waiting_client
     = (Some timeout_reply,
        waiting_client\<lparr>pending_requests :=
          [(''r-1'', other_reply\<lparr>m_requestId := Some ''r-1''\<rparr>), (''r-2'', other_reply)]\<rparr>)
   \<and> player_send_request ''r-3'' None 100 [(100.01, []), (105, [])] waiting_client
     = (Some timeout_reply, waiting_client)"
proof -
  have a: "player_send_request ''r-3'' None 100
      ([(100.01, []), (102.5, [other_reply])] @ (105.02, []) # [(105.03, [])]) waiting_client
     = (Some timeout_reply,
        receiver_only waiting_client [(100.01, []), (102.5, [other_reply])])"
    using request_timeout [of waiting_client "''r-3''" "[(100.01, []), (102.5, [other_reply])]"
        100 "105.02" "[]" "[(105.03, [])]"]
    by (simp add: waiting_client_def other_reply_def timeout_def)
  have b: "player_send_request ''r-3'' None 100 ([(100.01, [])] @ (105, []) # []) waiting_client
     = (Some timeout_reply, receiver_only waiting_client [(100.01, [])])
     \<and> receiver_only waiting_client [(100.01, [])] = waiting_client"
    using request_timeout [of waiting_client "''r-3''" "[(100.01, [])]" 100 105 "[]" "[]"]
    by (simp add: waiting_client_def other_reply_def timeout_def)
  have c: "receiver_only waiting_client [(100.01, []), (102.5, [other_reply])]
     = waiting_client\<lparr>pending_requests :=
          [(''r-1'', other_reply\<lparr>m_requestId := Some ''r-1''\<rparr>), (''r-2'', other_reply)]\<rparr>"
    by (simp add: receiver_only_def handle_message_def waiting_client_def other_reply_def)
  from a b c show ?thesis by simp
qed

section \<open>The room lock\<close>

text \<open>
  The block of \<open>start_game\<close> under \<open>with self.room_lock\<close> in two parts, as a thread
  runs it: the guards, which only read the lobby's state, and, when they pass, the
  three assignments that allocate the port and mark the room as playing.
\<close>

datatype decision = Raise py_error | Refuse pydict | Pass int room

definition check_guards :: "request \<Rightarrow> world \<Rightarrow> decision" where
  "check_guards message w =
     (case get_room w (r_roomId message) of
        Inl e \<Rightarrow> Raise e
      | Inr (i, room) \<Rightarrow>
          if r_player_name message \<noteq> host room then
            Refuse [(''success'', JBool False),
                    (''error'', JStr (''Only host can start the game'' @ [CHR 0x0A]))]
          else
            (case len_lt (length (members room)) (room_min room) of
               Inl e \<Rightarrow> Raise e
             | Inr True \<Rightarrow>
                 Refuse [(''success'', JBool False),
                         (''error'', JStr (''Need at least '' @ format_json (room_min room)
                                           @ '' players to start'' @ [CHR 0x0A]))]
             | Inr False \<Rightarrow>
                 if status room = ''playing'' then
                   Refuse [(''success'', JBool False),
                           (''error'', JStr ''Game is starting, please wait'')]
                 else Pass i room))"

definition leave_block :: "decision \<Rightarrow> world \<Rightarrow> (py_error + locked_result) \<times> world" where
  "leave_block d w =
     (case d of
        Raise e \<Rightarrow> (Inl e, w)
      | Refuse reply \<Rightarrow> (Inr (Refused reply), w)
      | Pass i room \<Rightarrow>
          (let game_port = next_game_port w
           in (Inr (Allocated game_port),
               w\<lparr>next_game_port := next_game_port w + 1,
                 rooms := AList.update i (room\<lparr>status := ''playing''\<rparr>) (rooms w)\<rparr>)))"

lemma start_game_locked_split:
  "start_game_locked message w = leave_block (check_guards message w) w"
  by (simp add: start_game_locked_def check_guards_def leave_block_def Let_def
      split: sum.splits prod.splits bool.splits)

text \<open>
  Worker threads that each serve one START_GAME request.  A thread waits for the
  lock, takes it when it is free, evaluates the guards, then leaves the block: it
  performs the assignments if the guards passed, and releases the lock.  Any thread
  that can move may move next.
\<close>

datatype thread = Waiting | Holding | Decided decision | Finished "py_error + locked_result"

record system =
  shared :: world
  room_lock :: "nat option"
  threads :: "thread list"

inductive move :: "request list \<Rightarrow> system \<Rightarrow> system \<Rightarrow> bool" for messages where
  acquire:
    "t < length (threads s) \<Longrightarrow> threads s ! t = Waiting \<Longrightarrow> room_lock s = None \<Longrightarrow>
       move messages s (s\<lparr>room_lock := Some t, threads := (threads s)[t := Holding]\<rparr>)"
| guards:
    "t < length (threads s) \<Longrightarrow> threads s ! t = Holding \<Longrightarrow>
       move messages s
         (s\<lparr>threads := (threads s)[t := Decided (check_guards (messages ! t) (shared s))]\<rparr>)"
| release:
    "t < length (threads s) \<Longrightarrow> threads s ! t = Decided d \<Longrightarrow>
     leave_block d (shared s) = (res, w') \<Longrightarrow>
       move messages s
         (s\<lparr>shared := w', room_lock := None, threads := (threads s)[t := Finished res]\<rparr>)"

inductive reachable :: "request list \<Rightarrow> world \<Rightarrow> system \<Rightarrow> bool" for messages w0 where
  at_start: "reachable messages w0
            \<lparr>shared = w0, room_lock = None, threads = map (\<lambda>m. Waiting) messages\<rparr>"
| after_move: "reachable messages w0 s \<Longrightarrow> move messages s s' \<Longrightarrow> reachable messages w0 s'"

text \<open>The same requests served one after the other, each block as a whole.\<close>

fun one_by_one :: "request list \<Rightarrow> world \<Rightarrow> (py_error + locked_result) list \<times> world" where
  "one_by_one [] w = ([], w)"
| "one_by_one (m # ms) w =
     (case start_game_locked m w of
        (r, w1) \<Rightarrow> (case one_by_one ms w1 of (rs, w2) \<Rightarrow> (r # rs, w2)))"

lemma one_by_one_snoc:
  "one_by_one ms w = (rs, w1) \<Longrightarrow> start_game_locked m w1 = (r, w2) \<Longrightarrow>
     one_by_one (ms @ [m]) w = (rs @ [r], w2)"
  by (induction ms arbitrary: w rs) (auto split: prod.splits)

text \<open>
  The invariant: the lock is held exactly by the thread inside the block, the guards
  of that thread were evaluated on the present state, and the finished threads have
  had the effect of serving their requests one by one in some order.
\<close>

definition holds_lock :: "system \<Rightarrow> nat \<Rightarrow> bool" where
  "holds_lock s t \<longleftrightarrow> room_lock s = Some t"

definition thread_ok :: "request list \<Rightarrow> system \<Rightarrow> nat \<Rightarrow> bool" where
  "thread_ok messages s t \<longleftrightarrow>
     (case threads s ! t of
        Waiting \<Rightarrow> \<not> holds_lock s t
      | Holding \<Rightarrow> holds_lock s t
      | Decided d \<Rightarrow> holds_lock s t \<and> d = check_guards (messages ! t) (shared s)
      | Finished r \<Rightarrow> \<not> holds_lock s t)"

definition serialised :: "request list \<Rightarrow> world \<Rightarrow> system \<Rightarrow> nat list \<Rightarrow> bool" where
  "serialised messages w0 s order \<longleftrightarrow>
     distinct order
     \<and> set order = {t. t < length messages \<and> (\<exists>r. threads s ! t = Finished r)}
     \<and> (\<exists>rs. one_by_one (map (\<lambda>t. messages ! t) order) w0 = (rs, shared s)
            \<and> map (\<lambda>t. threads s ! t) order = map Finished rs)"

definition invariant :: "request list \<Rightarrow> world \<Rightarrow> system \<Rightarrow> bool" where
  "invariant messages w0 s \<longleftrightarrow>
     length (threads s) = length messages
     \<and> (\<forall>t < length messages. thread_ok messages s t)
     \<and> (\<exists>order. serialised messages w0 s order)"

lemma outside_block:
  assumes "thread_ok messages s t'" and "room_lock s \<noteq> Some t'"
  shows "threads s ! t' = Waiting \<or> (\<exists>r. threads s ! t' = Finished r)"
  using assms by (cases "threads s ! t'") (auto simp: thread_ok_def holds_lock_def)

lemma invariant_start:
  "invariant messages w0 \<lparr>shared = w0, room_lock = None, threads = map (\<lambda>m. Waiting) messages\<rparr>"
proof -
  let ?s = "\<lparr>shared = w0, room_lock = None, threads = map (\<lambda>m. Waiting) messages\<rparr>"
  have "serialised messages w0 ?s []"
    by (auto simp: serialised_def)
  then show ?thesis
    by (auto simp: invariant_def thread_ok_def holds_lock_def)
qed

lemma serialised_unchanged:
  assumes ser: "serialised messages w0 s order"
    and len: "length (threads s) = length messages" and t: "t < length messages"
    and was: "\<forall>r. threads s ! t \<noteq> Finished r" and now: "\<forall>r. x \<noteq> Finished r"
    and s': "shared s' = shared s" "threads s' = (threads s)[t := x]"
  shows "serialised messages w0 s' order"
proof -
  from ser obtain rs where dist: "distinct order"
    and fin: "set order = {u. u < length messages \<and> (\<exists>r. threads s ! u = Finished r)}"
    and run: "one_by_one (map (\<lambda>u. messages ! u) order) w0 = (rs, shared s)"
    and res: "map (\<lambda>u. threads s ! u) order = map Finished rs"
    by (auto simp: serialised_def)
  from fin was have "\<forall>u \<in> set order. t \<noteq> u" by auto
  then have same: "map (\<lambda>u. threads s' ! u) order = map (\<lambda>u. threads s ! u) order"
    using s' by (simp add: nth_list_update_neq)
  have fin': "{u. u < length messages \<and> (\<exists>r. threads s' ! u = Finished r)}
          = {u. u < length messages \<and> (\<exists>r. threads s ! u = Finished r)}"
  proof -
    from len t have "t < length (threads s)" by simp
    with s' was now show ?thesis by (auto simp: nth_list_update split: if_splits)
  qed
  show ?thesis
    unfolding serialised_def
  proof (intro conjI exI [of _ rs])
    show "distinct order" by (rule dist)
    show "set order = {u. u < length messages \<and> (\<exists>r. threads s' ! u = Finished r)}"
      using fin fin' by simp
    show "one_by_one (map (\<lambda>u. messages ! u) order) w0 = (rs, shared s')"
      using run s' by simp
    show "map (\<lambda>u. threads s' ! u) order = map Finished rs"
      using same res by simp
  qed
qed

lemma thread_ok_other:
  assumes "thread_ok messages s u" and "room_lock s \<noteq> Some u"
    and "threads s' ! u = threads s ! u" and "room_lock s' \<noteq> Some u"
  shows "thread_ok messages s' u"
  using outside_block [OF assms(1,2)] assms(3,4)
  by (auto simp: thread_ok_def holds_lock_def)

lemma invariant_acquire:
  assumes inv: "invariant messages w0 s"
    and a: "t < length (threads s)" "threads s ! t = Waiting" "room_lock s = None"
    and sh: "shared s' = shared s" and lk: "room_lock s' = Some t"
    and th: "threads s' = (threads s)[t := Holding]"
  shows "invariant messages w0 s'"
proof -
  from inv have len: "length (threads s) = length messages"
    and ok: "\<And>u. u < length messages \<Longrightarrow> thread_ok messages s u"
    and ser: "\<exists>order. serialised messages w0 s order"
    by (simp_all add: invariant_def)
  from ser obtain order where order: "serialised messages w0 s order" ..
  from a(1) len have t: "t < length messages" and tl: "t < length (threads s)" by simp_all
  have ok': "thread_ok messages s' u" if u: "u < length messages" for u
  proof (cases "u = t")
    case True
    with th lk tl show ?thesis by (simp add: thread_ok_def holds_lock_def)
  next
    case False
    with th have e: "threads s' ! u = threads s ! u" by (simp add: nth_list_update_neq)
    from a(3) have n1: "room_lock s \<noteq> Some u" by simp
    from lk False have n2: "room_lock s' \<noteq> Some u" by simp
    show ?thesis by (rule thread_ok_other [OF ok [OF u] n1 e n2])
  qed
  from a(2) have was: "\<forall>r. threads s ! t \<noteq> Finished r" by simp
  have now: "\<forall>r. Holding \<noteq> Finished r" by simp
  have "serialised messages w0 s' order"
    by (rule serialised_unchanged [OF order len t was now sh th])
  then have "\<exists>order. serialised messages w0 s' order" ..
  moreover from len th have "length (threads s') = length messages" by simp
  ultimately show ?thesis using ok' unfolding invariant_def by blast
qed

lemma invariant_guards:
  assumes inv: "invariant messages w0 s"
    and a: "t < length (threads s)" "threads s ! t = Holding"
    and sh: "shared s' = shared s" and lk: "room_lock s' = room_lock s"
    and th: "threads s' = (threads s)[t := Decided (check_guards (messages ! t) (shared s))]"
  shows "invariant messages w0 s'"
proof -
  from inv have len: "length (threads s) = length messages"
    and ok: "\<And>u. u < length messages \<Longrightarrow> thread_ok messages s u"
    and ser: "\<exists>order. serialised messages w0 s order"
    by (simp_all add: invariant_def)
  from ser obtain order where order: "serialised messages w0 s order" ..
  let ?d = "Decided (check_guards (messages ! t) (shared s))"
  from a(1) len have t: "t < length messages" and tl: "t < length (threads s)" by simp_all
  from ok [OF t] a(2) have held: "room_lock s = Some t"
    by (simp add: thread_ok_def holds_lock_def)
  have ok': "thread_ok messages s' u" if u: "u < length messages" for u
  proof (cases "u = t")
    case True
    with th lk sh tl held show ?thesis by (simp add: thread_ok_def holds_lock_def)
  next
    case False
    with th have e: "threads s' ! u = threads s ! u" by (simp add: nth_list_update_neq)
    from held False have n1: "room_lock s \<noteq> Some u" by simp
    from lk held False have n2: "room_lock s' \<noteq> Some u" by simp
    show ?thesis by (rule thread_ok_other [OF ok [OF u] n1 e n2])
  qed
  from a(2) have was: "\<forall>r. threads s ! t \<noteq> Finished r" by simp
  have now: "\<forall>r. ?d \<noteq> Finished r" by simp
  have "serialised messages w0 s' order"
    by (rule serialised_unchanged [OF order len t was now sh th])
  then have "\<exists>order. serialised messages w0 s' order" ..
  moreover from len th have "length (threads s') = length messages" by simp
  ultimately show ?thesis using ok' unfolding invariant_def by blast
qed

lemma invariant_release:
  assumes inv: "invariant messages w0 s"
    and a: "t < length (threads s)" "threads s ! t = Decided d"
      "leave_block d (shared s) = (res, w')"
    and sh: "shared s' = w'" and lk: "room_lock s' = None"
    and th: "threads s' = (threads s)[t := Finished res]"
  shows "invariant messages w0 s'"
proof -
  from inv have len: "length (threads s) = length messages"
    and ok: "\<And>u. u < length messages \<Longrightarrow> thread_ok messages s u"
    and ser: "\<exists>order. serialised messages w0 s order"
    by (simp_all add: invariant_def)
  from ser obtain order where order: "serialised messages w0 s order" ..
  from a(1) len have t: "t < length messages" and tl: "t < length (threads s)" by simp_all
  from ok [OF t] a(2) have held: "room_lock s = Some t"
    and d: "d = check_guards (messages ! t) (shared s)"
    by (simp_all add: thread_ok_def holds_lock_def)
  from d a(3) have served: "start_game_locked (messages ! t) (shared s) = (res, w')"
    by (simp add: start_game_locked_split)
  have ok': "thread_ok messages s' u" if u: "u < length messages" for u
  proof (cases "u = t")
    case True
    with th lk tl show ?thesis by (simp add: thread_ok_def holds_lock_def)
  next
    case False
    with th have e: "threads s' ! u = threads s ! u" by (simp add: nth_list_update_neq)
    from held False have n1: "room_lock s \<noteq> Some u" by simp
    from lk have n2: "room_lock s' \<noteq> Some u" by simp
    show ?thesis by (rule thread_ok_other [OF ok [OF u] n1 e n2])
  qed
  from order obtain rs where dist: "distinct order"
    and fin: "set order = {u. u < length messages \<and> (\<exists>r. threads s ! u = Finished r)}"
    and run: "one_by_one (map (\<lambda>u. messages ! u) order) w0 = (rs, shared s)"
    and res: "map (\<lambda>u. threads s ! u) order = map Finished rs"
    unfolding serialised_def by blast
  from fin a(2) have notin: "t \<notin> set order" by simp
  then have neq: "\<forall>u \<in> set order. t \<noteq> u" by blast
  have fin': "set (order @ [t]) = {u. u < length messages \<and> (\<exists>r. threads s' ! u = Finished r)}"
  proof (intro set_eqI iffI)
    fix u assume "u \<in> set (order @ [t])"
    then consider "u = t" | "u \<in> set order" "u \<noteq> t" using notin by auto
    then show "u \<in> {u. u < length messages \<and> (\<exists>r. threads s' ! u = Finished r)}"
    proof cases
      case 1
      with th tl t show ?thesis by simp
    next
      case 2
      with fin th show ?thesis by (simp add: nth_list_update_neq)
    qed
  next
    fix u assume u: "u \<in> {u. u < length messages \<and> (\<exists>r. threads s' ! u = Finished r)}"
    show "u \<in> set (order @ [t])"
    proof (cases "u = t")
      case True
      then show ?thesis by simp
    next
      case False
      with u th have "u < length messages \<and> (\<exists>r. threads s ! u = Finished r)"
        by (simp add: nth_list_update_neq)
      with fin show ?thesis by simp
    qed
  qed
  have "serialised messages w0 s' (order @ [t])"
    unfolding serialised_def
  proof (intro conjI exI [of _ "rs @ [res]"])
    show "distinct (order @ [t])" using dist notin by simp
    show "set (order @ [t]) = {u. u < length messages \<and> (\<exists>r. threads s' ! u = Finished r)}"
      by (rule fin')
    show "one_by_one (map (\<lambda>u. messages ! u) (order @ [t])) w0 = (rs @ [res], shared s')"
      using one_by_one_snoc [OF run served] sh by simp
    from neq have "map (\<lambda>u. threads s' ! u) order = map (\<lambda>u. threads s ! u) order"
      using th by (simp add: nth_list_update_neq)
    with res th tl
    show "map (\<lambda>u. threads s' ! u) (order @ [t]) = map Finished (rs @ [res])"
      by simp
  qed
  then have "\<exists>order. serialised messages w0 s' order" ..
  moreover from len th have "length (threads s') = length messages" by simp
  ultimately show ?thesis using ok' unfolding invariant_def by blast
qed

lemma invariant_move:
  assumes inv: "invariant messages w0 s" and mv: "move messages s s'"
  shows "invariant messages w0 s'"
  using mv
proof cases
  case (acquire t)
  from acquire(1) have "shared s' = shared s" "room_lock s' = Some t"
    "threads s' = (threads s)[t := Holding]" by simp_all
  with inv acquire(2-4) show ?thesis by (rule invariant_acquire)
next
  case (guards t)
  from guards(1) have "shared s' = shared s" "room_lock s' = room_lock s"
    "threads s' = (threads s)[t := Decided (check_guards (messages ! t) (shared s))]"
    by simp_all
  with inv guards(2,3) show ?thesis by (rule invariant_guards)
next
  case (release t d res w')
  from release(1) have "shared s' = w'" "room_lock s' = None"
    "threads s' = (threads s)[t := Finished res]" by simp_all
  with inv release(2-4) show ?thesis by (rule invariant_release)
qed

lemma reachable_invariant: "reachable messages w0 s \<Longrightarrow> invariant messages w0 s"
proof (induction rule: reachable.induct)
  case at_start
  show ?case by (rule invariant_start)
next
  case (after_move s s')
  then show ?case by (intro invariant_move [of messages w0 s s'])
qed

text \<open>A thread is inside the block from the moment it has the lock until it releases it.\<close>

definition in_block :: "system \<Rightarrow> nat \<Rightarrow> bool" where
  "in_block s t \<longleftrightarrow>
     (case threads s ! t of
        Waiting \<Rightarrow> False | Holding \<Rightarrow> True | Decided d \<Rightarrow> True | Finished r \<Rightarrow> False)"

text \<open>
  Claim C3.  For every existing room, \<open>start_game\<close> checks its guards in this order and
  answers with the first that fails, leaving the lobby's state as it was:

  \<^item> the requester is not the room's host: \<open>Only host can start the game\<close>;
  \<^item> otherwise \<open>len(room["members"]) < room["room_min"]\<close> is true:
    \<open>Need at least \<dots> players to start\<close>;
  \<^item> otherwise the room's status is \<open>playing\<close>: \<open>Game is starting, please wait\<close>.

  (When the comparison of the second guard raises, \<open>start_game\<close> raises the same
  exception, again with the state unchanged.)  Only when all three pass does
  \<open>start_game\<close> take the next port, set the status to \<open>playing\<close> and go on: it raises
  \<open>TypeError\<close> when the request names no game or no version; it answers
  \<open>Failed to start game server\<close> and puts the status back to \<open>idle\<close> when the match
  process cannot be started; otherwise it records the match under the room's id, sends
  \<open>GAME_STARTING\<close> to the members that are online and answers with the port.

  The guards and the assignment of \<open>playing\<close> are one critical section under
  \<open>room_lock\<close>: in every state that any number of threads serving START_GAME requests
  can reach, in any interleaving of their steps, a thread inside the block holds the
  lock, so no two threads are inside at once; the state on which a thread has
  evaluated the guards is still the state of the lobby when it performs the
  assignment; and the finished threads have the results, and the lobby the state, of
  running their blocks one after the other in some order.
\<close>

theorem start_game_guards:
  assumes "r_roomId message = Some i" and "map_of (rooms w) i = Some room"
  shows "(r_player_name message \<noteq> host room \<longrightarrow>
            start_game L message w = (Inr forbidden_reply, w))
       \<and> (r_player_name message = host room
             \<and> len_lt (length (members room)) (room_min room) = Inl e \<longrightarrow>
            start_game L message w = (Inl e, w))
       \<and> (r_player_name message = host room
             \<and> len_lt (length (members room)) (room_min room) = Inr True \<longrightarrow>
            start_game L message w = (Inr (not_enough_reply (room_min room)), w))
       \<and> (r_player_name message = host room
             \<and> len_lt (length (members room)) (room_min room) = Inr False
             \<and> status room = ''playing'' \<longrightarrow>
            start_game L message w = (Inr already_starting_reply, w))
       \<and> (r_player_name message = host room
             \<and> len_lt (length (members room)) (room_min room) = Inr False
             \<and> status room \<noteq> ''playing'' \<longrightarrow>
            start_game L message w =
              (let game_port = next_game_port w;
                   w1 = w\<lparr>next_game_port := next_game_port w + 1,
                          rooms := AList.update i (room\<lparr>status := ''playing''\<rparr>) (rooms w)\<rparr>
               in case (r_game_name message, r_version message) of
                    (Some gname, Some ver) \<Rightarrow>
                      (case popen L gname ver game_port (length (members room)) of
                         Inl reason \<Rightarrow>
                           (Inr [(''success'', JBool False),
                                 (''error'', JStr (''Failed to start game server: '' @ reason))],
                            w1\<lparr>rooms := AList.update i (room\<lparr>status := ''idle''\<rparr>) (rooms w1)\<rparr>)
                       | Inr proc \<Rightarrow>
                           (Inr [(''success'', JBool True),
                                 (''gamePort'', JInt game_port),
                                 (''gameHost'', JStr lobby_host),
                                 (''message'', JStr ''Game server started'')],
                            notify_room_members i
                              [(''action'', JStr ''GAME_STARTING''),
                               (''gameStarter'', json_of_name (r_player_name message)),
                               (''gamePort'', JInt game_port),
                               (''gameHost'', JStr lobby_host),
                               (''roomId'', JInt i)]
                              (w1\<lparr>games := AList.update i
                                     \<lparr>port = game_port, process = proc\<rparr> (games w)\<rparr>)))
                  | _ \<Rightarrow> (Inl TypeError, w1)))
       \<and> (reachable messages w0 s \<longrightarrow>
            (\<forall>t < length messages. in_block s t \<longrightarrow> room_lock s = Some t)
          \<and> (\<forall>t < length messages. \<forall>u < length messages.
                in_block s t \<and> in_block s u \<longrightarrow> t = u)
          \<and> (\<forall>t < length messages. \<forall>d. threads s ! t = Decided d \<longrightarrow>
                d = check_guards (messages ! t) (shared s)
                \<and> leave_block d (shared s) = start_game_locked (messages ! t) (shared s))
          \<and> (\<exists>order. serialised messages w0 s order))"
proof -
  have refused: "r_player_name message \<noteq> host room \<longrightarrow>
            start_game L message w = (Inr forbidden_reply, w)"
    using assms
    by (simp add: start_game_def start_game_locked_def get_room_def forbidden_reply_def)
  have raises: "r_player_name message = host room
             \<and> len_lt (length (members room)) (room_min room) = Inl e \<longrightarrow>
            start_game L message w = (Inl e, w)"
    using assms by (simp add: start_game_def start_game_locked_def get_room_def)
  have few: "r_player_name message = host room
             \<and> len_lt (length (members room)) (room_min room) = Inr True \<longrightarrow>
            start_game L message w = (Inr (not_enough_reply (room_min room)), w)"
    using assms
    by (simp add: start_game_def start_game_locked_def get_room_def not_enough_reply_def)
  have playing: "r_player_name message = host room
             \<and> len_lt (length (members room)) (room_min room) = Inr False
             \<and> status room = ''playing'' \<longrightarrow>
            start_game L message w = (Inr already_starting_reply, w)"
    using assms
    by (simp add: start_game_def start_game_locked_def get_room_def already_starting_reply_def)
  have proceeds: "r_player_name message = host room
             \<and> len_lt (length (members room)) (room_min room) = Inr False
             \<and> status room \<noteq> ''playing'' \<longrightarrow>
            start_game L message w =
              (let game_port = next_game_port w;
                   w1 = w\<lparr>next_game_port := next_game_port w + 1,
                          rooms := AList.update i (room\<lparr>status := ''playing''\<rparr>) (rooms w)\<rparr>
               in case (r_game_name message, r_version message) of
                    (Some gname, Some ver) \<Rightarrow>
                      (case popen L gname ver game_port (length (members room)) of
                         Inl reason \<Rightarrow>
                           (Inr [(''success'', JBool False),
                                 (''error'', JStr (''Failed to start game server: '' @ reason))],
                            w1\<lparr>rooms := AList.update i (room\<lparr>status := ''idle''\<rparr>) (rooms w1)\<rparr>)
                       | Inr proc \<Rightarrow>
                           (Inr [(''success'', JBool True),
                                 (''gamePort'', JInt game_port),
                                 (''gameHost'', JStr lobby_host),
                                 (''message'', JStr ''Game server started'')],
                            notify_room_members i
                              [(''action'', JStr ''GAME_STARTING''),
                               (''gameStarter'', json_of_name (r_player_name message)),
                               (''gamePort'', JInt game_port),
                               (''gameHost'', JStr lobby_host),
                               (''roomId'', JInt i)]
                              (w1\<lparr>games := AList.update i
                                     \<lparr>port = game_port, process = proc\<rparr> (games w)\<rparr>)))
                  | _ \<Rightarrow> (Inl TypeError, w1))"
    using assms
    by (simp add: start_game_def start_game_locked_def get_room_def set_idle_def Let_def
        update_conv' split: option.splits sum.splits)
  have lock: "reachable messages w0 s \<longrightarrow>
            (\<forall>t < length messages. in_block s t \<longrightarrow> room_lock s = Some t)
          \<and> (\<forall>t < length messages. \<forall>u < length messages.
                in_block s t \<and> in_block s u \<longrightarrow> t = u)
          \<and> (\<forall>t < length messages. \<forall>d. threads s ! t = Decided d \<longrightarrow>
                d = check_guards (messages ! t) (shared s)
                \<and> leave_block d (shared s) = start_game_locked (messages ! t) (shared s))
          \<and> (\<exists>order. serialised messages w0 s order)"
  proof
    assume "reachable messages w0 s"
    then have inv: "invariant messages w0 s" by (rule reachable_invariant)
    then have ok: "\<And>t. t < length messages \<Longrightarrow> thread_ok messages s t"
      and ser: "\<exists>order. serialised messages w0 s order"
      by (simp_all add: invariant_def)
    have held: "room_lock s = Some t" if "t < length messages" "in_block s t" for t
      using ok [OF that(1)] that(2)
      by (cases "threads s ! t") (simp_all add: thread_ok_def holds_lock_def in_block_def)
    have one: "t = u"
      if "t < length messages" "u < length messages" "in_block s t" "in_block s u" for t u
      using held [OF that(1,3)] held [OF that(2,4)] by simp
    have same: "d = check_guards (messages ! t) (shared s)
                \<and> leave_block d (shared s) = start_game_locked (messages ! t) (shared s)"
      if "t < length messages" "threads s ! t = Decided d" for t d
      using ok [OF that(1)] that(2)
      by (simp add: thread_ok_def start_game_locked_split)
    from held one same ser
    show "(\<forall>t < length messages. in_block s t \<longrightarrow> room_lock s = Some t)
          \<and> (\<forall>t < length messages. \<forall>u < length messages.
                in_block s t \<and> in_block s u \<longrightarrow> t = u)
          \<and> (\<forall>t < length messages. \<forall>d. threads s ! t = Decided d \<longrightarrow>
                d = check_guards (messages ! t) (shared s)
                \<and> leave_block d (shared s) = start_game_locked (messages ! t) (shared s))
          \<and> (\<exists>order. serialised messages w0 s order)"
      by blast
  qed
  from refused raises few playing proceeds lock show ?thesis by blast
qed

text \<open>
  Two requests of the host for the same room, served by two threads: a state with the
  first thread inside the block, and the state when both have finished.
\<close>

definition two_hosts :: "request list" where
  "two_hosts = [start_request ''alice'' 1, start_request ''alice'' 1]"

definition one_inside :: system where
  "one_inside =
     \<lparr>shared = room_world, room_lock = Some 0,
      threads = [Decided (Pass 1 duel_room), Waiting]\<rparr>"

definition both_served :: system where
  "both_served =
     \<lparr>shared = room_world\<lparr>next_game_port := 44849,
                           rooms := [(1, duel_room\<lparr>status := ''playing''\<rparr>)]\<rparr>,
      room_lock = None,
      threads = [Finished (Inr (Allocated 44848)),
                 Finished (Inr (Refused already_starting_reply))]\<rparr>"

lemma reachable_acquire:
  assumes "reachable messages w0 s" and "t < length (threads s)"
    and "threads s ! t = Waiting" and "room_lock s = None"
    and "s' = s\<lparr>room_lock := Some t, threads := (threads s)[t := Holding]\<rparr>"
  shows "reachable messages w0 s'"
  using assms(1) move.acquire [OF assms(2-4), of messages] unfolding assms(5)
  by (rule reachable.after_move)

lemma reachable_guards:
  assumes "reachable messages w0 s" and "t < length (threads s)"
    and "threads s ! t = Holding"
    and "s' = s\<lparr>threads := (threads s)[t := Decided (check_guards (messages ! t) (shared s))]\<rparr>"
  shows "reachable messages w0 s'"
  using assms(1) move.guards [OF assms(2,3), of messages] unfolding assms(4)
  by (rule reachable.after_move)

lemma reachable_release:
  assumes "reachable messages w0 s" and "t < length (threads s)"
    and "threads s ! t = Decided d" and "leave_block d (shared s) = (res, w')"
    and "s' = s\<lparr>shared := w', room_lock := None, threads := (threads s)[t := Finished res]\<rparr>"
  shows "reachable messages w0 s'"
  using assms(1) move.release [OF assms(2-4), of messages] unfolding assms(5)
  by (rule reachable.after_move)

lemma two_hosts_guards:
  "check_guards (start_request ''alice'' 1) room_world = Pass 1 duel_room"
  "check_guards (start_request ''alice'' 1)
     (room_world\<lparr>next_game_port := 44849, rooms := [(1, duel_room\<lparr>status := ''playing''\<rparr>)]\<rparr>)
   = Refuse already_starting_reply"
  by (simp_all add: check_guards_def get_room_def start_request_def no_request_def
      room_world_def initial_world_def duel_room_def already_starting_reply_def)

lemma two_hosts_leave:
  "leave_block (Pass 1 duel_room) room_world =
     (Inr (Allocated 44848),
      room_world\<lparr>next_game_port := 44849, rooms := [(1, duel_room\<lparr>status := ''playing''\<rparr>)]\<rparr>)"
  by (simp add: leave_block_def room_world_def initial_world_def)

lemma one_inside_reachable: "reachable two_hosts room_world one_inside"
proof -
  have s0: "reachable two_hosts room_world
              \<lparr>shared = room_world, room_lock = None, threads = [Waiting, Waiting]\<rparr>"
    using reachable.at_start [of two_hosts room_world] by (simp add: two_hosts_def)
  have s1: "reachable two_hosts room_world
              \<lparr>shared = room_world, room_lock = Some 0, threads = [Holding, Waiting]\<rparr>"
    by (rule reachable_acquire [OF s0, of 0]) simp_all
  show ?thesis
    unfolding one_inside_def
    by (rule reachable_guards [OF s1, of 0]) (simp_all add: two_hosts_def two_hosts_guards)
qed

lemma both_served_reachable: "reachable two_hosts room_world both_served"
proof -
  let ?w = "room_world\<lparr>next_game_port := 44849,
                        rooms := [(1, duel_room\<lparr>status := ''playing''\<rparr>)]\<rparr>"
  let ?r = "Finished (Inr (Allocated 44848))"
  have s3: "reachable two_hosts room_world
              \<lparr>shared = ?w, room_lock = None, threads = [?r, Waiting]\<rparr>"
    by (rule reachable_release [OF one_inside_reachable, of 0 "Pass 1 duel_room"])
      (simp_all add: one_inside_def two_hosts_leave)
  have s4: "reachable two_hosts room_world
              \<lparr>shared = ?w, room_lock = Some 1, threads = [?r, Holding]\<rparr>"
    by (rule reachable_acquire [OF s3, of 1]) simp_all
  have s5: "reachable two_hosts room_world
              \<lparr>shared = ?w, room_lock = Some 1,
               threads = [?r, Decided (Refuse already_starting_reply)]\<rparr>"
    by (rule reachable_guards [OF s4, of 1]) (simp_all add: two_hosts_def two_hosts_guards)
  show ?thesis
    unfolding both_served_def
    by (rule reachable_release [OF s5, of 1 "Refuse already_starting_reply"])
      (simp_all add: leave_block_def)
qed

theorem start_game_guards_witness:
  "start_game sample_lib (start_request ''bob'' 1) room_world = (Inr forbidden_reply, room_world)
   \<and> start_game sample_lib (start_request ''alice'' 1)
        (room_world\<lparr>rooms := [(1, duel_room\<lparr>room_min := JStr ''2''\<rparr>)]\<rparr>) =
       (Inl TypeError, room_world\<lparr>rooms := [(1, duel_room\<lparr>room_min := JStr ''2''\<rparr>)]\<rparr>)
   \<and> start_game sample_lib (start_request ''alice'' 1)
        (room_world\<lparr>rooms := [(1, duel_room\<lparr>members := [Some ''alice'']\<rparr>)]\<rparr>) =
       (Inr (not_enough_reply (JInt 2)),
        room_world\<lparr>rooms := [(1, duel_room\<lparr>members := [Some ''alice'']\<rparr>)]\<rparr>)
   \<and> start_game sample_lib (start_request ''alice'' 1)
        (room_world\<lparr>rooms := [(1, duel_room\<lparr>status := ''playing''\<rparr>)]\<rparr>) =
       (Inr already_starting_reply,
        room_world\<lparr>rooms := [(1, duel_room\<lparr>status := ''playing''\<rparr>)]\<rparr>)
   \<and> start_game sample_lib (start_request ''alice'' 1) room_world =
       (Inr [(''success'', JBool True), (''gamePort'', JInt 44848),
             (''gameHost'', JStr ''140.113.17.11''), (''message'', JStr ''Game server started'')],
        room_world\<lparr>next_game_port := 44849,
                   rooms := [(1, duel_room\<lparr>status := ''playing''\<rparr>)],
                   games := [(1, \<lparr>port = 44848, process = 0\<rparr>)]\<rparr>)
   \<and> reachable two_hosts room_world one_inside
   \<and> in_block one_inside 0 \<and> room_lock one_inside = Some 0
   \<and> threads one_inside ! 0 = Decided (check_guards (two_hosts ! 0) (shared one_inside))
   \<and> reachable two_hosts room_world both_served
   \<and> (\<exists>order. serialised two_hosts room_world both_served order)"
proof -
  let ?alice = "start_request ''alice'' 1"
  have req: "r_roomId ?alice = Some 1" "r_roomId (start_request ''bob'' 1) = Some 1"
    by (simp_all add: start_request_def no_request_def)
  have room: "map_of (rooms (room_world\<lparr>rooms := [(1, r)]\<rparr>)) 1 = Some r" for r
    by simp
  have room0: "map_of (rooms room_world) 1 = Some duel_room"
    by (simp add: room_world_def)
  note ev = start_request_def no_request_def room_world_def initial_world_def duel_room_def
    sample_lib_def notify_room_members_def lobby_host_def
  from start_game_guards [where L = sample_lib, OF req(2) room0]
  have c1: "start_game sample_lib (start_request ''bob'' 1) room_world
              = (Inr forbidden_reply, room_world)"
    by (simp add: start_request_def no_request_def duel_room_def)
  from start_game_guards [where L = sample_lib and e = TypeError
      and w = "room_world\<lparr>rooms := [(1, duel_room\<lparr>room_min := JStr ''2''\<rparr>)]\<rparr>",
      OF req(1) room]
  have c2: "start_game sample_lib ?alice
              (room_world\<lparr>rooms := [(1, duel_room\<lparr>room_min := JStr ''2''\<rparr>)]\<rparr>) =
            (Inl TypeError, room_world\<lparr>rooms := [(1, duel_room\<lparr>room_min := JStr ''2''\<rparr>)]\<rparr>)"
    by (simp add: start_request_def no_request_def duel_room_def)
  from start_game_guards [where L = sample_lib
      and w = "room_world\<lparr>rooms := [(1, duel_room\<lparr>members := [Some ''alice'']\<rparr>)]\<rparr>",
      OF req(1) room]
  have c3: "start_game sample_lib ?alice
              (room_world\<lparr>rooms := [(1, duel_room\<lparr>members := [Some ''alice'']\<rparr>)]\<rparr>) =
            (Inr (not_enough_reply (JInt 2)),
             room_world\<lparr>rooms := [(1, duel_room\<lparr>members := [Some ''alice'']\<rparr>)]\<rparr>)"
    by (simp add: start_request_def no_request_def duel_room_def)
  from start_game_guards [where L = sample_lib
      and w = "room_world\<lparr>rooms := [(1, duel_room\<lparr>status := ''playing''\<rparr>)]\<rparr>",
      OF req(1) room]
  have c4: "start_game sample_lib ?alice
              (room_world\<lparr>rooms := [(1, duel_room\<lparr>status := ''playing''\<rparr>)]\<rparr>) =
            (Inr already_starting_reply,
             room_world\<lparr>rooms := [(1, duel_room\<lparr>status := ''playing''\<rparr>)]\<rparr>)"
    by (simp add: start_request_def no_request_def duel_room_def)
  from start_game_guards [where L = sample_lib, OF req(1) room0]
  have c5: "start_game sample_lib ?alice room_world =
       (Inr [(''success'', JBool True), (''gamePort'', JInt 44848),
             (''gameHost'', JStr ''140.113.17.11''), (''message'', JStr ''Game server started'')],
        room_world\<lparr>next_game_port := 44849,
                   rooms := [(1, duel_room\<lparr>status := ''playing''\<rparr>)],
                   games := [(1, \<lparr>port = 44848, process = 0\<rparr>)]\<rparr>)"
    by (simp add: ev)
  from start_game_guards [where messages = two_hosts and ?w0.0 = room_world and s = one_inside,
      OF req(1) room0]
    one_inside_reachable
  have c6: "in_block one_inside 0 \<and> room_lock one_inside = Some 0
            \<and> threads one_inside ! 0 = Decided (check_guards (two_hosts ! 0) (shared one_inside))"
    by (simp add: one_inside_def in_block_def two_hosts_def two_hosts_guards)
  from start_game_guards [where messages = two_hosts and ?w0.0 = room_world and s = both_served,
      OF req(1) room0]
    both_served_reachable
  have c7: "\<exists>order. serialised two_hosts room_world both_served order"
    by simp
  from c1 c2 c3 c4 c5 c6 c7 one_inside_reachable both_served_reachable
  show ?thesis by simp
qed

end
